theory Spec2Isabelle
  imports Complex_Main "HOL-Library.Char_ord" "HOL-Library.List_Lexorder" "HOL-Library.AList"
begin

section \<open>Data model (types.ts)\<close>

text \<open>
  A \<^verbatim>\<open>LogEntry\<close> is a plain JavaScript object. \<^verbatim>\<open>maskSensitiveFields\<close> walks it
  generically, key by key, and may replace any of its fields, so an entry is modelled as the
  JSON value it is; its \<^verbatim>\<open>id\<close> is read with \<open>entry_id\<close>.
  Counts of the configuration (\<^verbatim>\<open>batchSize\<close>, \<^verbatim>\<open>maxRetries\<close>,
  \<^verbatim>\<open>maxBreadcrumbs\<close>, \<^verbatim>\<open>maxLogsPerMinute\<close>) are natural numbers.
\<close>

datatype LogLevel = Trace | Debug | Info | Warn | Error | Fatal | Critical

datatype BreadcrumbType = Click | Navigation | Xhr | Console | Custom | ErrorCrumb

datatype json =
    JNull
  | JBool bool
  | JNum real
  | JStr string
  | JArr "json list"
  | JObj "(string \<times> json) list"

type_synonym LogEntry = json

record Breadcrumb =
  bc_timestamp :: string
  bc_type :: BreadcrumbType
  bc_message :: string
  bc_data :: "json option"

text \<open>
  \<^verbatim>\<open>log.id\<close>: \<open>idProperty\<close> is \<open>None\<close> when the property is undefined, and
  \<open>entry_id\<close> is \<open>None\<close> when it is falsy (\<^verbatim>\<open>!log.id\<close>), that is undefined or empty.
\<close>

definition idProperty :: "LogEntry \<Rightarrow> string option" where
  "idProperty e =
     (case e of
        JObj kvs \<Rightarrow> (case map_of kvs ''id'' of Some (JStr s) \<Rightarrow> Some s | _ \<Rightarrow> None)
      | _ \<Rightarrow> None)"

definition entry_id :: "LogEntry \<Rightarrow> string option" where
  "entry_id e =
     (case idProperty e of Some s \<Rightarrow> if s = [] then None else Some s | None \<Rightarrow> None)"

text \<open>\<^verbatim>\<open>log.id = generateUUID()\<close>; the generated identifier is an input of the model.\<close>

definition assign_id :: "string \<Rightarrow> LogEntry \<Rightarrow> LogEntry" where
  "assign_id u e = (case e of JObj kvs \<Rightarrow> JObj (AList.update ''id'' (JStr u) kvs) | _ \<Rightarrow> e)"

section \<open>Durable store (store.ts)\<close>

text \<open>
  \<^verbatim>\<open>IndexedDBStore\<close> wraps an object store of the browser created with
  \<^verbatim>\<open>{ keyPath: 'id' }\<close> and no auto-increment. The object store itself is the browser's:
  by the Indexed Database API its records are held sorted by key, \<^verbatim>\<open>add\<close> fails with a
  constraint error when the key is already present, and \<^verbatim>\<open>getAll()\<close> returns the records in
  ascending key order. String keys compare code unit by code unit, which for the identifiers
  used here is the lexicographic order on \<open>string\<close>.
  \<open>db\<close> says whether \<^verbatim>\<open>this.db\<close> is set, \<open>openSucceeds\<close> whether
  \<^verbatim>\<open>indexedDB.open\<close> succeeds when it is called, and \<open>ops\<close> records every database
  request that is issued.
\<close>

datatype idb_error = OpenError | ConstraintError | DataError

datatype idb_mode = ReadOnly | ReadWrite

datatype idb_op = IdbOpen | IdbTransaction idb_mode

record IndexedDBStore =
  db :: bool
  openSucceeds :: bool
  objects :: "(string \<times> LogEntry) list"
  ops :: "idb_op list"

definition openDb :: "IndexedDBStore \<Rightarrow> (idb_error + unit) \<times> IndexedDBStore" where
  "openDb st =
     (if db st then (Inr (), st)
      else
        let st' = st\<lparr>ops := ops st @ [IdbOpen]\<rparr> in
        if openSucceeds st then (Inr (), st'\<lparr>db := True\<rparr>) else (Inl OpenError, st'))"

definition ensureDb :: "IndexedDBStore \<Rightarrow> (idb_error + unit) \<times> IndexedDBStore" where
  "ensureDb st = (if \<not> db st then openDb st else (Inr (), st))"

definition addLog :: "IndexedDBStore \<Rightarrow> string \<Rightarrow> LogEntry \<Rightarrow> (idb_error + unit) \<times> IndexedDBStore" where
  "addLog st uuid entry =
     (case ensureDb st of
        (Inl e, st1) \<Rightarrow> (Inl e, st1)
      | (Inr _, st1) \<Rightarrow>
          let entry' = (if entry_id entry = None then assign_id uuid entry else entry);
              st2 = st1\<lparr>ops := ops st1 @ [IdbTransaction ReadWrite]\<rparr>
          in (case entry_id entry' of
                None \<Rightarrow> (Inl DataError, st2)
              | Some k \<Rightarrow>
                  if k \<in> fst ` set (objects st2) then (Inl ConstraintError, st2)
                  else (Inr (), st2\<lparr>objects := insort_key fst (k, entry') (objects st2)\<rparr>)))"

definition getAllLogs :: "IndexedDBStore \<Rightarrow> (idb_error + LogEntry list) \<times> IndexedDBStore" where
  "getAllLogs st =
     (case ensureDb st of
        (Inl e, st1) \<Rightarrow> (Inl e, st1)
      | (Inr _, st1) \<Rightarrow>
          (Inr (map snd (objects st1)), st1\<lparr>ops := ops st1 @ [IdbTransaction ReadOnly]\<rparr>))"

text \<open>\<^verbatim>\<open>ids\<close> is \<open>None\<close> when the argument is missing (\<^verbatim>\<open>!ids\<close>).\<close>

definition deleteLogs :: "IndexedDBStore \<Rightarrow> string list option \<Rightarrow> (idb_error + unit) \<times> IndexedDBStore" where
  "deleteLogs st ids =
     (case ids of
        None \<Rightarrow> (Inr (), st)
      | Some is \<Rightarrow>
          if length is = 0 then (Inr (), st)
          else
            (case ensureDb st of
               (Inl e, st1) \<Rightarrow> (Inl e, st1)
             | (Inr _, st1) \<Rightarrow>
                 (Inr (), st1\<lparr>ops := ops st1 @ [IdbTransaction ReadWrite],
                               objects := filter (\<lambda>kv. fst kv \<notin> set is) (objects st1)\<rparr>)))"

section \<open>Configuration and collector state (collector.ts)\<close>

text \<open>
  Of \<^verbatim>\<open>LogCollectorConfig\<close>, the keys read by the functions modelled below. A hook that
  is \<open>None\<close> is a key whose value is undefined.
\<close>

record Config =
  dsn :: string
  apiKey :: string
  batchSize :: nat
  batchInterval :: nat
  maxRetries :: nat
  retryDelayMs :: nat
  logLevel :: LogLevel
  maskFields :: "string list"
  samplingRates :: "LogLevel \<rightharpoonup> real"
  maxLogsPerMinute :: nat
  beforeSend :: "(LogEntry \<Rightarrow> LogEntry option) option"
  beforeBreadcrumb :: "(Breadcrumb \<Rightarrow> Breadcrumb option) option"
  maxLocalStorageSize :: nat
  maxBreadcrumbs :: nat

text \<open>
  The argument of \<^verbatim>\<open>updateConfig\<close>, a \<^verbatim>\<open>Partial<LogCollectorConfig>\<close>: a field is
  \<open>None\<close> when the key is absent from the object.
\<close>

record PartialConfig =
  new_dsn :: "string option"
  new_apiKey :: "string option"
  new_batchSize :: "nat option"
  new_batchInterval :: "nat option"
  new_maxRetries :: "nat option"
  new_retryDelayMs :: "nat option"
  new_logLevel :: "LogLevel option"
  new_maskFields :: "string list option"
  new_samplingRates :: "(LogLevel \<rightharpoonup> real) option"
  new_maxLogsPerMinute :: "nat option"
  new_beforeSend :: "(LogEntry \<Rightarrow> LogEntry option) option option"
  new_beforeBreadcrumb :: "(Breadcrumb \<Rightarrow> Breadcrumb option) option option"
  new_maxLocalStorageSize :: "nat option"
  new_maxBreadcrumbs :: "nat option"

datatype send_error = HttpError nat string | NetworkError string

text \<open>
  What the collector does to the outside, in the order it does it. A call of
  \<^verbatim>\<open>flushQueue\<close> that the code makes from \<^verbatim>\<open>processQueue\<close> or from a timer is a new
  activation of an asynchronous function; it is recorded here (\<open>RequestFlush\<close>,
  \<open>ScheduleFlush\<close>) and run as a step of its own.
\<close>

datatype event =
    Post "LogEntry list" bool
  | Beacon "LogEntry list"
  | OnSendSuccess "LogEntry list"
  | OnSendFailure send_error "LogEntry list"
  | ScheduleFlush nat real
  | RequestFlush
  | ConsoleWarn string
  | ConsoleError string

record LogCollector =
  config :: Config
  logQueue :: "LogEntry list"
  breadcrumbs :: "Breadcrumb list"
  timer :: "nat option"
  isSending :: bool
  circuitOpen :: bool
  consecutiveFailures :: nat
  circuitResetTimer :: "nat option"
  logCounts :: "nat \<rightharpoonup> nat"
  currentMinute :: nat
  rateLimitTimer :: bool
  localStorageStore :: "LogEntry list option option"
  indexedDBStore :: "IndexedDBStore option"
  events :: "event list"

definition CIRCUIT_BREAKER_THRESHOLD :: nat where
  "CIRCUIT_BREAKER_THRESHOLD = 5"

definition CIRCUIT_BREAKER_RESET_DELAY :: nat where
  "CIRCUIT_BREAKER_RESET_DELAY = 60000"

definition emit :: "event \<Rightarrow> LogCollector \<Rightarrow> LogCollector" where
  "emit e c = c\<lparr>events := events c @ [e]\<rparr>"

subsection \<open>updateConfig\<close>

definition mergeConfig :: "Config \<Rightarrow> PartialConfig \<Rightarrow> Config" where
  "mergeConfig cfg n =
     \<lparr> dsn = (case new_dsn n of None \<Rightarrow> dsn cfg | Some v \<Rightarrow> v),
       apiKey = (case new_apiKey n of None \<Rightarrow> apiKey cfg | Some v \<Rightarrow> v),
       batchSize = (case new_batchSize n of None \<Rightarrow> batchSize cfg | Some v \<Rightarrow> v),
       batchInterval = (case new_batchInterval n of None \<Rightarrow> batchInterval cfg | Some v \<Rightarrow> v),
       maxRetries = (case new_maxRetries n of None \<Rightarrow> maxRetries cfg | Some v \<Rightarrow> v),
       retryDelayMs = (case new_retryDelayMs n of None \<Rightarrow> retryDelayMs cfg | Some v \<Rightarrow> v),
       logLevel = (case new_logLevel n of None \<Rightarrow> logLevel cfg | Some v \<Rightarrow> v),
       maskFields = (case new_maskFields n of None \<Rightarrow> maskFields cfg | Some v \<Rightarrow> v),
       samplingRates = (case new_samplingRates n of None \<Rightarrow> samplingRates cfg | Some v \<Rightarrow> v),
       maxLogsPerMinute = (case new_maxLogsPerMinute n of None \<Rightarrow> maxLogsPerMinute cfg | Some v \<Rightarrow> v),
       beforeSend = (case new_beforeSend n of None \<Rightarrow> beforeSend cfg | Some v \<Rightarrow> v),
       beforeBreadcrumb = (case new_beforeBreadcrumb n of None \<Rightarrow> beforeBreadcrumb cfg | Some v \<Rightarrow> v),
       maxLocalStorageSize = (case new_maxLocalStorageSize n of None \<Rightarrow> maxLocalStorageSize cfg | Some v \<Rightarrow> v),
       maxBreadcrumbs = (case new_maxBreadcrumbs n of None \<Rightarrow> maxBreadcrumbs cfg | Some v \<Rightarrow> v) \<rparr>"

definition startBatchTimer :: "LogCollector \<Rightarrow> LogCollector" where
  "startBatchTimer c = c\<lparr>timer := Some (batchInterval (config c))\<rparr>"

text \<open>\<open>key\<close> is the minute key of the current time (see \<open>minuteKey\<close> below).\<close>

definition initRateLimiter :: "LogCollector \<Rightarrow> nat \<Rightarrow> LogCollector" where
  "initRateLimiter c key =
     c\<lparr>currentMinute := key, logCounts := (logCounts c)(key \<mapsto> 0), rateLimitTimer := True\<rparr>"

definition updateConfig :: "LogCollector \<Rightarrow> PartialConfig \<Rightarrow> nat \<Rightarrow> LogCollector" where
  "updateConfig c newConfig key =
     (let oldMaxLogsPerMinute = maxLogsPerMinute (config c);
          c1 = c\<lparr>config := mergeConfig (config c) newConfig\<rparr>;
          c2 = (if new_batchInterval newConfig \<noteq> None \<or> new_batchSize newConfig \<noteq> None
                then startBatchTimer c1 else c1)
      in if new_maxLogsPerMinute newConfig \<noteq> None
            \<and> new_maxLogsPerMinute newConfig \<noteq> Some oldMaxLogsPerMinute
         then
           (let c3 = c2\<lparr>rateLimitTimer := False\<rparr>
            in if maxLogsPerMinute (config c3) > 0 then initRateLimiter c3 key else c3)
         else c2)"

text \<open>\<^verbatim>\<open>this.config.samplingRates[level] ?? 1.0\<close>\<close>

definition samplingRate :: "Config \<Rightarrow> LogLevel \<Rightarrow> real" where
  "samplingRate cfg level = (case samplingRates cfg level of None \<Rightarrow> 1 | Some r \<Rightarrow> r)"

subsection \<open>Breadcrumbs\<close>

definition pushBreadcrumb :: "LogCollector \<Rightarrow> Breadcrumb \<Rightarrow> LogCollector" where
  "pushBreadcrumb c b =
     (let bs = breadcrumbs c @ [b]
      in c\<lparr>breadcrumbs := (if length bs > maxBreadcrumbs (config c) then tl bs else bs)\<rparr>)"

definition addBreadcrumb ::
  "LogCollector \<Rightarrow> string \<Rightarrow> BreadcrumbType \<Rightarrow> string \<Rightarrow> json option \<Rightarrow> LogCollector" where
  "addBreadcrumb c now type message data =
     (let breadcrumb = \<lparr>bc_timestamp = now, bc_type = type, bc_message = message, bc_data = data\<rparr>
      in case beforeBreadcrumb (config c) of
           Some hook \<Rightarrow>
             (case hook breadcrumb of
                None \<Rightarrow> c
              | Some modifiedBreadcrumb \<Rightarrow> pushBreadcrumb c modifiedBreadcrumb)
         | None \<Rightarrow> pushBreadcrumb c breadcrumb)"

subsection \<open>Rate limiting\<close>

record LocalTime =
  fullYear :: nat
  month :: nat
  date :: nat
  hours :: nat
  minutes :: nat

text \<open>\<open>month\<close> is \<^verbatim>\<open>getMonth()\<close>, which counts from 0.\<close>

definition minuteKey :: "LocalTime \<Rightarrow> nat" where
  "minuteKey now =
     fullYear now * 100000000 + (month now + 1) * 1000000 + date now * 10000
       + hours now * 100 + minutes now"

text \<open>
  Step 3 of \<^verbatim>\<open>captureLog\<close>. The result says whether the event is dropped. The warning
  goes through \<^verbatim>\<open>console.warn\<close>; where console capture has wrapped that method, the
  call enters \<^verbatim>\<open>captureLog\<close> again with a \<^verbatim>\<open>warn\<close> event of the same minute, which
  raises the count further and is dropped in turn.
\<close>

definition rateLimit :: "LogCollector \<Rightarrow> nat \<Rightarrow> bool \<times> LogCollector" where
  "rateLimit c currentMinuteKey =
     (if maxLogsPerMinute (config c) > 0 then
        let c1 = (if currentMinute c \<noteq> currentMinuteKey
                  then c\<lparr>logCounts := Map.empty, currentMinute := currentMinuteKey\<rparr> else c);
            n = (case logCounts c1 currentMinuteKey of None \<Rightarrow> 0 | Some k \<Rightarrow> k) + 1;
            c2 = c1\<lparr>logCounts := (logCounts c1)(currentMinuteKey \<mapsto> n)\<rparr>
        in if n > maxLogsPerMinute (config c)
           then (True, emit (ConsoleWarn ''skipped due to rate limiting'') c2)
           else (False, c2)
      else (False, c))"

subsection \<open>Masking\<close>

text \<open>
  \<^verbatim>\<open>maskSensitiveFields\<close> first copies the record with
  \<^verbatim>\<open>JSON.parse(JSON.stringify(obj))\<close>; a value of type \<open>json\<close> is what that copy is.
  \<^verbatim>\<open>traverseAndMask\<close> then runs \<^verbatim>\<open>for (const key in current)\<close> over the own keys of an
  object or, for an array, over its indices written in decimal.
\<close>

fun toStringNat :: "nat \<Rightarrow> string" where
  "toStringNat n =
     (if n < 10 then [''0123456789'' ! n]
      else toStringNat (n div 10) @ [''0123456789'' ! (n mod 10)])"

fun typeofObject :: "json \<Rightarrow> bool" where
  "typeofObject JNull = True"
| "typeofObject (JArr _) = True"
| "typeofObject (JObj _) = True"
| "typeofObject _ = False"

fun traverseAndMask :: "string list \<Rightarrow> json \<Rightarrow> json"
and maskMembers :: "string list \<Rightarrow> (string \<times> json) list \<Rightarrow> (string \<times> json) list"
and maskElements :: "string list \<Rightarrow> nat \<Rightarrow> json list \<Rightarrow> json list"
where
  "traverseAndMask fieldsToMask (JObj kvs) = JObj (maskMembers fieldsToMask kvs)"
| "traverseAndMask fieldsToMask (JArr xs) = JArr (maskElements fieldsToMask 0 xs)"
| "traverseAndMask fieldsToMask JNull = JNull"
| "traverseAndMask fieldsToMask (JBool b) = JBool b"
| "traverseAndMask fieldsToMask (JNum n) = JNum n"
| "traverseAndMask fieldsToMask (JStr s) = JStr s"
| "maskMembers fieldsToMask [] = []"
| "maskMembers fieldsToMask ((key, v) # kvs) =
     (key, if key \<in> set fieldsToMask then JStr ''********''
           else if typeofObject v then traverseAndMask fieldsToMask v else v)
       # maskMembers fieldsToMask kvs"
| "maskElements fieldsToMask i [] = []"
| "maskElements fieldsToMask i (v # vs) =
     (if toStringNat i \<in> set fieldsToMask then JStr ''********''
      else if typeofObject v then traverseAndMask fieldsToMask v else v)
       # maskElements fieldsToMask (Suc i) vs"

definition maskSensitiveFields :: "json \<Rightarrow> string list \<Rightarrow> json" where
  "maskSensitiveFields obj fieldsToMask = traverseAndMask fieldsToMask obj"

text \<open>
  Steps 5 and 6 of \<^verbatim>\<open>captureLog\<close>: the block guarded by
  \<^verbatim>\<open>if (this.config.beforeSend)\<close>. \<open>None\<close> is a dropped record.
\<close>

definition maskAndHook :: "Config \<Rightarrow> LogEntry \<Rightarrow> LogEntry option" where
  "maskAndHook cfg logEntry =
     (case beforeSend cfg of
        Some hook \<Rightarrow>
          hook (if length (maskFields cfg) > 0
                then maskSensitiveFields logEntry (maskFields cfg) else logEntry)
      | None \<Rightarrow> Some logEntry)"

text \<open>Reading a value by its path of keys; an array is read by its decimal indices.\<close>

fun members :: "json \<Rightarrow> (string \<times> json) list" where
  "members (JObj kvs) = kvs"
| "members (JArr xs) = zip (map toStringNat [0..<length xs]) xs"
| "members _ = []"

fun valueAt :: "json \<Rightarrow> string list \<Rightarrow> json option" where
  "valueAt j [] = Some j"
| "valueAt j (key # path) =
     (case map_of (members j) key of None \<Rightarrow> None | Some v \<Rightarrow> valueAt v path)"

subsection \<open>Persistence of accepted records\<close>

text \<open>
  The inputs of one \<^verbatim>\<open>captureLog\<close> call that come from the environment:
  \<^verbatim>\<open>Math.random()\<close>, the clock, \<^verbatim>\<open>generateUUID()\<close> (\<open>env_uuid\<close> for the new record,
  \<open>env_queueUuid i\<close> for the record at position \<open>i\<close> of the queue), the context providers,
  \<^verbatim>\<open>getDeviceInfo()\<close>, and the length of \<^verbatim>\<open>JSON.stringify\<close> of a list of records.
\<close>

record CaptureEnv =
  env_random :: real
  env_now :: LocalTime
  env_timestamp :: string
  env_uuid :: string
  env_queueUuid :: "nat \<Rightarrow> string"
  env_globalContext :: json
  env_userContext :: json
  env_device :: json
  env_jsonLength :: "LogEntry list \<Rightarrow> nat"

text \<open>\<^verbatim>\<open>setItem\<close> is taken not to throw.\<close>

definition saveLogsToLocalStorage :: "LogCollector \<Rightarrow> CaptureEnv \<Rightarrow> LogCollector" where
  "saveLogsToLocalStorage c env =
     (case localStorageStore c of
        None \<Rightarrow> c
      | Some slot \<Rightarrow>
          let q = map (\<lambda>ie. if entry_id (snd ie) = None
                              then assign_id (env_queueUuid env (fst ie)) (snd ie) else snd ie)
                      (enumerate 0 (logQueue c));
              c1 = c\<lparr>logQueue := q\<rparr>
          in if env_jsonLength env q < maxLocalStorageSize (config c)
             then c1\<lparr>localStorageStore := Some (Some q)\<rparr>
             else emit (ConsoleWarn ''LocalStorage limit reached'') c1)"

text \<open>
  \<^verbatim>\<open>Promise.all(logsToPersist.map(log => this.indexedDBStore.addLog(log)))\<close>: every
  \<^verbatim>\<open>addLog\<close> runs in a transaction of its own; the result is \<open>True\<close> when all of them
  resolve.
\<close>

fun addLogAll :: "IndexedDBStore \<Rightarrow> string \<Rightarrow> LogEntry list \<Rightarrow> bool \<times> IndexedDBStore" where
  "addLogAll st uuid [] = (True, st)"
| "addLogAll st uuid (entry # rest) =
     (let (r, st1) = addLog st uuid entry;
          (allOk, st2) = addLogAll st1 uuid rest
      in (\<not> isl r \<and> allOk, st2))"

text \<open>
  The persistence block of \<^verbatim>\<open>captureLog\<close>, run right after the new record is pushed on
  \<^verbatim>\<open>logQueue\<close>. In the \<^verbatim>\<open>catch\<close> branch the code executes
  \<^verbatim>\<open>this.logQueue.unshift(...this.logQueue)\<close>.
\<close>

definition persistQueue :: "LogCollector \<Rightarrow> CaptureEnv \<Rightarrow> LogCollector" where
  "persistQueue c env =
     (case indexedDBStore c of
        Some st \<Rightarrow>
          let logsToPersist = logQueue c;
              c1 = c\<lparr>logQueue := []\<rparr>;
              (allOk, st') = addLogAll st (env_uuid env) logsToPersist;
              c2 = c1\<lparr>indexedDBStore := Some st'\<rparr>
          in if allOk then c2
             else
               let c3 = emit (ConsoleError ''Failed to persist log to IndexedDB'') c2;
                   c4 = c3\<lparr>logQueue := logQueue c3 @ logQueue c3\<rparr>
               in (case localStorageStore c4 of
                     Some slot \<Rightarrow> saveLogsToLocalStorage c4 env
                   | None \<Rightarrow> c4)
      | None \<Rightarrow>
          (case localStorageStore c of
             Some slot \<Rightarrow> saveLogsToLocalStorage c env
           | None \<Rightarrow> c))"

definition processQueue :: "LogCollector \<Rightarrow> LogCollector" where
  "processQueue c =
     (case indexedDBStore c of
        Some st \<Rightarrow>
          if length (logQueue c) \<ge> batchSize (config c) then emit RequestFlush c else c
      | None \<Rightarrow>
          if length (logQueue c) \<ge> batchSize (config c) then emit RequestFlush c else c)"

subsection \<open>captureLog\<close>

fun levelRank :: "LogLevel \<Rightarrow> nat" where
  "levelRank Trace = 0"
| "levelRank Debug = 1"
| "levelRank Info = 2"
| "levelRank Warn = 3"
| "levelRank Error = 4"
| "levelRank Fatal = 5"
| "levelRank Critical = 6"

fun levelName :: "LogLevel \<Rightarrow> string" where
  "levelName Trace = ''trace''"
| "levelName Debug = ''debug''"
| "levelName Info = ''info''"
| "levelName Warn = ''warn''"
| "levelName Error = ''error''"
| "levelName Fatal = ''fatal''"
| "levelName Critical = ''critical''"

fun breadcrumbTypeName :: "BreadcrumbType \<Rightarrow> string" where
  "breadcrumbTypeName Click = ''click''"
| "breadcrumbTypeName Navigation = ''navigation''"
| "breadcrumbTypeName Xhr = ''xhr''"
| "breadcrumbTypeName Console = ''console''"
| "breadcrumbTypeName Custom = ''custom''"
| "breadcrumbTypeName ErrorCrumb = ''error''"

definition breadcrumbJson :: "Breadcrumb \<Rightarrow> json" where
  "breadcrumbJson b =
     JObj ([(''timestamp'', JStr (bc_timestamp b)), (''type'', JStr (breadcrumbTypeName (bc_type b))),
            (''message'', JStr (bc_message b))]
           @ (case bc_data b of None \<Rightarrow> [] | Some d \<Rightarrow> [(''data'', d)]))"

text \<open>\<^verbatim>\<open>args.map(...).join(' ')\<close>, for arguments that are strings already.\<close>

fun joinSpace :: "string list \<Rightarrow> string" where
  "joinSpace [] = []"
| "joinSpace [a] = a"
| "joinSpace (a # b # rest) = a @ '' '' @ joinSpace (b # rest)"

definition buildEntry :: "LogCollector \<Rightarrow> CaptureEnv \<Rightarrow> LogLevel \<Rightarrow> string list \<Rightarrow> json \<Rightarrow> LogEntry" where
  "buildEntry c env level args additionalContext =
     (let logEntry = JObj [(''level'', JStr (levelName level)),
                           (''message'', JStr (joinSpace args)),
                           (''timestamp'', JStr (env_timestamp env)),
                           (''service'', JStr ''frontend-app''),
                           (''context'', additionalContext),
                           (''globalContext'', env_globalContext env),
                           (''userContext'', env_userContext env),
                           (''device'', env_device env),
                           (''breadcrumbs'', JArr (map breadcrumbJson (breadcrumbs c)))]
      in if indexedDBStore c \<noteq> None \<and> entry_id logEntry = None
         then assign_id (env_uuid env) logEntry else logEntry)"

datatype captured = DroppedByLevel | DroppedBySampling | DroppedByRateLimit | DroppedByBeforeSend
  | Accepted LogEntry

definition captureLog ::
  "LogCollector \<Rightarrow> CaptureEnv \<Rightarrow> LogLevel \<Rightarrow> string list \<Rightarrow> json \<Rightarrow> captured \<times> LogCollector" where
  "captureLog c env level args additionalContext =
     (if levelRank level < levelRank (logLevel (config c)) then (DroppedByLevel, c)
      else if env_random env > samplingRate (config c) level then (DroppedBySampling, c)
      else
        case rateLimit c (minuteKey (env_now env)) of
          (True, c1) \<Rightarrow> (DroppedByRateLimit, c1)
        | (False, c1) \<Rightarrow>
            (case maskAndHook (config c1) (buildEntry c1 env level args additionalContext) of
               None \<Rightarrow> (DroppedByBeforeSend, c1)
             | Some logEntry \<Rightarrow>
                 (Accepted logEntry,
                  processQueue (persistQueue (c1\<lparr>logQueue := logQueue c1 @ [logEntry]\<rparr>) env))))"

subsection \<open>Circuit breaker\<close>

definition openCircuit :: "LogCollector \<Rightarrow> LogCollector" where
  "openCircuit c = c\<lparr>circuitOpen := True, circuitResetTimer := Some CIRCUIT_BREAKER_RESET_DELAY\<rparr>"

definition closeCircuit :: "LogCollector \<Rightarrow> LogCollector" where
  "closeCircuit c = c\<lparr>circuitOpen := False, consecutiveFailures := 0, circuitResetTimer := None\<rparr>"

text \<open>
  The body of the timeout armed by \<^verbatim>\<open>openCircuit\<close>, up to its call of
  \<^verbatim>\<open>flushQueue()\<close>.
\<close>

definition circuitResetTimeout :: "LogCollector \<Rightarrow> LogCollector" where
  "circuitResetTimeout c = c\<lparr>circuitOpen := False, consecutiveFailures := 0\<rparr>"

subsection \<open>Delivery\<close>

definition handleSendSuccess :: "LogCollector \<Rightarrow> LogEntry list \<Rightarrow> string list \<Rightarrow> LogCollector" where
  "handleSendSuccess c logsSent idsToDelete =
     (let c1 = closeCircuit (c\<lparr>consecutiveFailures := 0\<rparr>);
          c2 = emit (OnSendSuccess logsSent) c1
      in case indexedDBStore c2 of
           Some st \<Rightarrow>
             if length idsToDelete > 0
             then c2\<lparr>indexedDBStore := Some (snd (deleteLogs st (Some idsToDelete)))\<rparr>
             else c2
         | None \<Rightarrow>
             (case localStorageStore c2 of
                Some slot \<Rightarrow> c2\<lparr>localStorageStore := Some None\<rparr>
              | None \<Rightarrow> c2))"

text \<open>\<open>jitter\<close> is \<^verbatim>\<open>Math.random() * 100\<close>.\<close>

definition handleSendFailure ::
  "LogCollector \<Rightarrow> LogEntry list \<Rightarrow> nat \<Rightarrow> send_error \<Rightarrow> real \<Rightarrow> LogCollector" where
  "handleSendFailure c logsFailed retries err jitter =
     (let c1 = c\<lparr>consecutiveFailures := consecutiveFailures c + 1\<rparr>;
          c2 = emit (OnSendFailure err logsFailed) c1
      in if consecutiveFailures c2 \<ge> CIRCUIT_BREAKER_THRESHOLD
         then emit (ConsoleError ''Circuit breaker opened due to too many failures'') (openCircuit c2)
         else if retries < maxRetries (config c2)
         then emit (ScheduleFlush (retries + 1)
                      (real (retryDelayMs (config c2)) * 2 ^ retries + jitter)) c2
         else emit (ConsoleError ''Max retries reached for batch'') c2)"

text \<open>
  The transport as one \<^verbatim>\<open>flushQueue\<close> call meets it: \<^verbatim>\<open>navigator.sendBeacon\<close> (absent,
  returning a boolean, or throwing), the length of the serialized batch, and the saved
  \<^verbatim>\<open>fetch\<close> (absent when network capture never saved it, rejecting, or resolving with a
  response).
\<close>

datatype beaconOutcome = BeaconMissing | BeaconReturns bool | BeaconThrows string

record Response =
  resp_ok :: bool
  resp_status :: nat
  resp_text :: string

datatype fetchOutcome = FetchMissing | FetchRejects string | FetchResolves Response

record FlushEnv =
  env_sendBeacon :: beaconOutcome
  env_payloadLength :: "LogEntry list \<Rightarrow> nat"
  env_fetch :: fetchOutcome
  env_jitter :: real

text \<open>
  The batch of a flush, with the ids to delete after a successful send, and the collector
  after the batch is taken.
\<close>

definition selectBatch :: "LogCollector \<Rightarrow> LogEntry list \<times> string list \<times> LogCollector" where
  "selectBatch c =
     (case indexedDBStore c of
        Some st \<Rightarrow>
          let (r, st') = getAllLogs st;
              allStoredLogs = (case r of Inl e \<Rightarrow> [] | Inr ls \<Rightarrow> ls);
              logsToSend = take (batchSize (config c)) allStoredLogs
          in (logsToSend, List.map_filter idProperty logsToSend, c\<lparr>indexedDBStore := Some st'\<rparr>)
      | None \<Rightarrow>
          (take (batchSize (config c)) (logQueue c), [],
           c\<lparr>logQueue := drop (batchSize (config c)) (logQueue c)\<rparr>))"

text \<open>
  The \<^verbatim>\<open>try\<close> block of \<^verbatim>\<open>flushQueue\<close>. The \<^verbatim>\<open>fetch\<close> call sits in an inner
  \<^verbatim>\<open>try\<close> whose \<^verbatim>\<open>catch\<close> only logs the error; the outer \<^verbatim>\<open>catch\<close>, which calls
  \<^verbatim>\<open>handleSendFailure\<close>, is reached when \<^verbatim>\<open>sendBeacon\<close> throws.
\<close>

definition sendBatch ::
  "LogCollector \<Rightarrow> LogEntry list \<Rightarrow> string list \<Rightarrow> nat \<Rightarrow> bool \<Rightarrow> FlushEnv \<Rightarrow> LogCollector" where
  "sendBatch c logsToSend logsIdsToDelete retries isUnload env =
     (let useBeacon = (isUnload \<and> env_sendBeacon env \<noteq> BeaconMissing
                        \<and> env_payloadLength env logsToSend < 60 * 1024);
          c1 = (if useBeacon then emit (Beacon logsToSend) c else c)
      in case (if useBeacon then env_sendBeacon env else BeaconMissing) of
           BeaconThrows e \<Rightarrow>
             handleSendFailure (emit (ConsoleError ''Network error sending logs'') c1)
               logsToSend retries (NetworkError e) (env_jitter env)
         | BeaconReturns True \<Rightarrow> handleSendSuccess c1 logsToSend logsIdsToDelete
         | _ \<Rightarrow>
             (case env_fetch env of
                FetchMissing \<Rightarrow> handleSendSuccess c1 logsToSend logsIdsToDelete
              | FetchRejects e \<Rightarrow> emit (Post logsToSend isUnload) c1
              | FetchResolves response \<Rightarrow>
                  if \<not> resp_ok response
                  then handleSendFailure
                         (emit (ConsoleError ''Failed to send logs'') (emit (Post logsToSend isUnload) c1))
                         logsToSend retries (HttpError (resp_status response) (resp_text response))
                         (env_jitter env)
                  else handleSendSuccess (emit (Post logsToSend isUnload) c1)
                         logsToSend logsIdsToDelete))"

definition flushQueue :: "LogCollector \<Rightarrow> nat \<Rightarrow> bool \<Rightarrow> FlushEnv \<Rightarrow> LogCollector" where
  "flushQueue c retries isUnload env =
     (if isSending c \<or> circuitOpen c \<or> dsn (config c) = [] then c
      else
        case selectBatch (c\<lparr>isSending := True\<rparr>) of
          (logsToSend, logsIdsToDelete, c1) \<Rightarrow>
            if length logsToSend = 0 then c1\<lparr>isSending := False\<rparr>
            else
              let c2 = sendBatch c1 logsToSend logsIdsToDelete retries isUnload env;
                  c3 = c2\<lparr>isSending := False\<rparr>
              in if indexedDBStore c3 \<noteq> None \<and> length logsToSend > 0 then processQueue c3
                 else if indexedDBStore c3 = None \<and> length (logQueue c3) > 0 then processQueue c3
                 else c3)"

subsection \<open>Constructor\<close>

text \<open>
  The defaults of the constructor. \<^verbatim>\<open>dsn\<close> and \<^verbatim>\<open>apiKey\<close> have none; the empty string
  stands for a missing (falsy) value. The default hooks return their argument.
\<close>

definition defaultConfig :: Config where
  "defaultConfig =
     \<lparr> dsn = [], apiKey = [], batchSize = 10, batchInterval = 5000, maxRetries = 3,
       retryDelayMs = 1000, logLevel = Info, maskFields = [], samplingRates = Map.empty,
       maxLogsPerMinute = 0, beforeSend = Some Some, beforeBreadcrumb = Some Some,
       maxLocalStorageSize = 5 * 1024 * 1024, maxBreadcrumbs = 50 \<rparr>"

definition noChange :: PartialConfig where
  "noChange =
     \<lparr> new_dsn = None, new_apiKey = None, new_batchSize = None, new_batchInterval = None,
       new_maxRetries = None, new_retryDelayMs = None, new_logLevel = None, new_maskFields = None,
       new_samplingRates = None, new_maxLogsPerMinute = None, new_beforeSend = None,
       new_beforeBreadcrumb = None, new_maxLocalStorageSize = None, new_maxBreadcrumbs = None \<rparr>"

text \<open>
  \<open>idb\<close> is the store the constructor creates when \<^verbatim>\<open>enableIndexedDB\<close> is set and the
  browser has \<^verbatim>\<open>indexedDB\<close>; the fallback slot \<open>ls\<close> is taken only otherwise
  (\<^verbatim>\<open>else if\<close>). \<open>key\<close> is the minute key of the time of construction. The records
  that \<^verbatim>\<open>loadLogsFromPersistence\<close> reads back later are not part of the initial state.
\<close>

definition newLogCollector ::
  "PartialConfig \<Rightarrow> IndexedDBStore option \<Rightarrow> LogEntry list option option \<Rightarrow> nat \<Rightarrow> LogCollector" where
  "newLogCollector userConfig idb ls key =
     (let c = \<lparr> config = mergeConfig defaultConfig userConfig, logQueue = [], breadcrumbs = [],
                 timer = None, isSending = False, circuitOpen = False, consecutiveFailures = 0,
                 circuitResetTimer = None, logCounts = Map.empty, currentMinute = 0,
                 rateLimitTimer = False,
                 localStorageStore = (if idb \<noteq> None then None else ls),
                 indexedDBStore = idb, events = [] \<rparr>;
          c1 = startBatchTimer c
      in if maxLogsPerMinute (config c1) > 0 then initRateLimiter c1 key else c1)"

definition newIndexedDBStore :: IndexedDBStore where
  "newIndexedDBStore = \<lparr> db = False, openSucceeds = True, objects = [], ops = [] \<rparr>"

section \<open>Runs\<close>

text \<open>Successive calls of \<^verbatim>\<open>addBreadcrumb\<close>, and the breadcrumbs the hook lets through.\<close>

type_synonym crumbArgs = "string \<times> BreadcrumbType \<times> string \<times> json option"

definition addBreadcrumbs :: "LogCollector \<Rightarrow> crumbArgs list \<Rightarrow> LogCollector" where
  "addBreadcrumbs c inputs =
     foldl (\<lambda>c' a. addBreadcrumb c' (fst a) (fst (snd a)) (fst (snd (snd a))) (snd (snd (snd a))))
       c inputs"

definition acceptedBreadcrumbs :: "Config \<Rightarrow> crumbArgs list \<Rightarrow> Breadcrumb list" where
  "acceptedBreadcrumbs cfg inputs =
     List.map_filter
       (\<lambda>a. let b = \<lparr>bc_timestamp = fst a, bc_type = fst (snd a), bc_message = fst (snd (snd a)),
                      bc_data = snd (snd (snd a))\<rparr>
            in case beforeBreadcrumb cfg of Some hook \<Rightarrow> hook b | None \<Rightarrow> Some b)
       inputs"


text \<open>
  What a flush did: the events it added. It reported a failure when \<^verbatim>\<open>onSendFailure\<close>
  was invoked during it, reported a success when \<^verbatim>\<open>onSendSuccess\<close> was, and sent
  something when a request or a beacon left. These are the callbacks the code made, not the
  fate of the request: a flush whose \<^verbatim>\<open>fetch\<close> call rejects has failed and reports
  nothing.
\<close>

fun isSendFailure :: "event \<Rightarrow> bool" where
  "isSendFailure (OnSendFailure e logs) = True"
| "isSendFailure _ = False"

fun isSendSuccess :: "event \<Rightarrow> bool" where
  "isSendSuccess (OnSendSuccess logs) = True"
| "isSendSuccess _ = False"

fun isTransmission :: "event \<Rightarrow> bool" where
  "isTransmission (Post logs keepalive) = True"
| "isTransmission (Beacon logs) = True"
| "isTransmission _ = False"

fun isRetry :: "event \<Rightarrow> bool" where
  "isRetry (ScheduleFlush retries delay) = True"
| "isRetry _ = False"

definition newEvents :: "LogCollector \<Rightarrow> LogCollector \<Rightarrow> event list" where
  "newEvents c c' = drop (length (events c)) (events c')"

definition failureReported :: "LogCollector \<Rightarrow> nat \<Rightarrow> bool \<Rightarrow> FlushEnv \<Rightarrow> bool" where
  "failureReported c retries isUnload env =
     list_ex isSendFailure (newEvents c (flushQueue c retries isUnload env))"

definition successReported :: "LogCollector \<Rightarrow> nat \<Rightarrow> bool \<Rightarrow> FlushEnv \<Rightarrow> bool" where
  "successReported c retries isUnload env =
     list_ex isSendSuccess (newEvents c (flushQueue c retries isUnload env))"

text \<open>
  A run of flushes, each given by its \<^verbatim>\<open>retries\<close> argument and its transport, and the
  runs in which every flush reported a failure.
\<close>

fun flushRun :: "LogCollector \<Rightarrow> (nat \<times> FlushEnv) list \<Rightarrow> LogCollector" where
  "flushRun c [] = c"
| "flushRun c (step # steps) = flushRun (flushQueue c (fst step) False (snd step)) steps"

fun allFailuresReported :: "LogCollector \<Rightarrow> (nat \<times> FlushEnv) list \<Rightarrow> bool" where
  "allFailuresReported c [] = True"
| "allFailuresReported c (step # steps) =
     (failureReported c (fst step) False (snd step)
      \<and> allFailuresReported (flushQueue c (fst step) False (snd step)) steps)"

text \<open>
  A collector that can flush from a durable store that is open and not empty, and the
  transports that answer a request with a status outside 2xx, or inside it.
\<close>

definition readyWithStore :: "LogCollector \<Rightarrow> bool" where
  "readyWithStore c =
     (\<not> isSending c \<and> dsn (config c) \<noteq> [] \<and> batchSize (config c) > 0
      \<and> (case indexedDBStore c of Some st \<Rightarrow> db st \<and> objects st \<noteq> [] | None \<Rightarrow> False))"

definition httpError :: "FlushEnv \<Rightarrow> bool" where
  "httpError env = (case env_fetch env of FetchResolves response \<Rightarrow> \<not> resp_ok response | _ \<Rightarrow> False)"

definition httpOk :: "FlushEnv \<Rightarrow> bool" where
  "httpOk env = (case env_fetch env of FetchResolves response \<Rightarrow> resp_ok response | _ \<Rightarrow> False)"

text \<open>The transports whose \<^verbatim>\<open>fetch\<close> call rejects: the request fails in transit.\<close>

definition transportThrows :: "FlushEnv \<Rightarrow> bool" where
  "transportThrows env = (case env_fetch env of FetchRejects e \<Rightarrow> True | _ \<Rightarrow> False)"

text \<open>The batches that left the page, request bodies and beacon payloads, oldest first.\<close>

fun transmitted :: "event list \<Rightarrow> LogEntry list list" where
  "transmitted [] = []"
| "transmitted (Post logs keepalive # es) = logs # transmitted es"
| "transmitted (Beacon logs # es) = logs # transmitted es"
| "transmitted (e # es) = transmitted es"


definition maskedValue :: "string list \<Rightarrow> string \<Rightarrow> json \<Rightarrow> json" where
  "maskedValue fieldsToMask key v =
     (if key \<in> set fieldsToMask then JStr ''********'' else traverseAndMask fieldsToMask v)"

section \<open>Example inputs\<close>

definition exampleDsn :: string where
  "exampleDsn = ''http://127.0.0.1:8080/ingest''"

text \<open>Two identifiers \<^verbatim>\<open>generateUUID\<close> can return.\<close>

definition uuidF :: string where
  "uuidF = ''ffffffff-ffff-4fff-8fff-ffffffffffff''"

definition uuid0 :: string where
  "uuid0 = ''00000000-0000-4000-8000-000000000000''"

definition exampleEnv :: "string \<Rightarrow> CaptureEnv" where
  "exampleEnv u =
     \<lparr> env_random = 0,
       env_now = \<lparr>fullYear = 2025, month = 0, date = 1, hours = 12, minutes = 0\<rparr>,
       env_timestamp = ''2025-01-01T12:00:00.000Z'', env_uuid = u, env_queueUuid = (\<lambda>i. u),
       env_globalContext = JObj [], env_userContext = JNull, env_device = JObj [],
       env_jsonLength = (\<lambda>logs. 2) \<rparr>"

definition http500 :: FlushEnv where
  "http500 =
     \<lparr> env_sendBeacon = BeaconMissing, env_payloadLength = (\<lambda>logs. 2),
       env_fetch = FetchResolves \<lparr>resp_ok = False, resp_status = 500, resp_text = []\<rparr>,
       env_jitter = 0 \<rparr>"

definition http200 :: FlushEnv where
  "http200 =
     http500\<lparr>env_fetch := FetchResolves \<lparr>resp_ok = True, resp_status = 200, resp_text = []\<rparr>\<rparr>"

definition fetchRejects :: FlushEnv where
  "fetchRejects = http500\<lparr>env_fetch := FetchRejects ''Failed to fetch''\<rparr>"

text \<open>
  A collector with the durable store after \<^verbatim>\<open>info("first")\<close> and then
  \<^verbatim>\<open>info("second")\<close>, where \<^verbatim>\<open>generateUUID\<close> returned \<open>uuidF\<close> for the first record
  and \<open>uuid0\<close> for the second; \<open>n\<close> is \<^verbatim>\<open>batchSize\<close>.
\<close>

definition twoCaptures :: "nat \<Rightarrow> LogCollector" where
  "twoCaptures n =
     (let c0 = newLogCollector (noChange\<lparr>new_dsn := Some exampleDsn, new_batchSize := Some n\<rparr>)
                 (Some newIndexedDBStore) None 0;
          c1 = snd (captureLog c0 (exampleEnv uuidF) Info [''first''] (JObj []));
          c2 = snd (captureLog c1 (exampleEnv uuid0) Info [''second''] (JObj []))
      in c2)"

text \<open>A collector with the durable store and one stored record.\<close>

definition oneCapture :: LogCollector where
  "oneCapture =
     snd (captureLog
            (newLogCollector (noChange\<lparr>new_dsn := Some exampleDsn\<rparr>) (Some newIndexedDBStore) None 0)
            (exampleEnv uuidF) Info [''first''] (JObj []))"

text \<open>
  Five failed attempts as the code produces them: a flush and its three retries
  (\<^verbatim>\<open>maxRetries = 3\<close>), then the next tick of the batch timer; and the collector after
  them.
\<close>

definition fiveFailures :: "(nat \<times> FlushEnv) list" where
  "fiveFailures = [(0, http500), (1, http500), (2, http500), (3, http500), (0, http500)]"

definition tripped :: LogCollector where
  "tripped = flushRun oneCapture fiveFailures"

text \<open>
  Five attempts whose \<^verbatim>\<open>fetch\<close> call rejects. The code schedules no retry for them, so
  all five are ticks of the batch timer.
\<close>

definition fiveRejections :: "(nat \<times> FlushEnv) list" where
  "fiveRejections =
     [(0, fetchRejects), (0, fetchRejects), (0, fetchRejects), (0, fetchRejects), (0, fetchRejects)]"

text \<open>A collector whose durable store cannot be opened.\<close>

definition unopenable :: LogCollector where
  "unopenable =
     newLogCollector (noChange\<lparr>new_dsn := Some exampleDsn\<rparr>)
       (Some (newIndexedDBStore\<lparr>openSucceeds := False\<rparr>)) None 0"

text \<open>
  Configurations with \<^verbatim>\<open>maskFields: ["password", "token"]\<close>: with the default hook, and
  with \<^verbatim>\<open>beforeSend: undefined\<close> passed to the constructor.
\<close>

definition maskingConfig :: PartialConfig where
  "maskingConfig = noChange\<lparr>new_maskFields := Some [''password'', ''token'']\<rparr>"

definition maskingNoHook :: PartialConfig where
  "maskingNoHook = maskingConfig\<lparr>new_beforeSend := Some None\<rparr>"

definition secretContext :: json where
  "secretContext =
     JObj [(''password'', JStr ''p''),
           (''nested'', JObj [(''token'', JStr ''t''), (''keep'', JStr ''k'')])]"

section \<open>Properties\<close>

subsection \<open>Durable store\<close>

text \<open>
  Claim C10. \<^verbatim>\<open>deleteLogs\<close> called with an empty or a missing id list resolves at once:
  it issues no database request (no open, no transaction) and leaves the store as it was.
\<close>

theorem deleteLogs_empty_noop:
  "deleteLogs st None = (Inr (), st) \<and> deleteLogs st (Some []) = (Inr (), st)
   \<and> ops (snd (deleteLogs st None)) = ops st \<and> ops (snd (deleteLogs st (Some []))) = ops st
   \<and> objects (snd (deleteLogs st None)) = objects st \<and> objects (snd (deleteLogs st (Some []))) = objects st"
  by (simp add: deleteLogs_def)

subsection \<open>Configuration updates\<close>

lemma config_updateConfig: "config (updateConfig c n key) = mergeConfig (config c) n"
  by (simp add: updateConfig_def Let_def startBatchTimer_def initRateLimiter_def)

text \<open>
  Claim C9. After \<^verbatim>\<open>updateConfig({samplingRates: S})\<close> the \<^verbatim>\<open>samplingRates\<close> object is
  \<open>S\<close> itself, whatever it was before: the effective rate of a level is the one \<open>S\<close> gives it,
  and 1 for a level that \<open>S\<close> does not mention.
\<close>

theorem updateConfig_replaces_samplingRates:
  assumes "new_samplingRates n = Some S"
  shows "samplingRates (config (updateConfig c n key)) = S
         \<and> samplingRate (config (updateConfig c n key)) level
             = (case S level of None \<Rightarrow> 1 | Some r \<Rightarrow> r)"
  using assms by (simp add: config_updateConfig mergeConfig_def samplingRate_def)

theorem updateConfig_replaces_samplingRates_witness:
  "new_samplingRates (noChange\<lparr>new_samplingRates := Some [Info \<mapsto> 0.8]\<rparr>) = Some [Info \<mapsto> 0.8]
   \<and> samplingRate (config (newLogCollector
         (noChange\<lparr>new_samplingRates := Some [Debug \<mapsto> 0.1, Info \<mapsto> 0.5]\<rparr>) None None 0)) Debug = 0.1
   \<and> samplingRate (config (updateConfig
         (newLogCollector (noChange\<lparr>new_samplingRates := Some [Debug \<mapsto> 0.1, Info \<mapsto> 0.5]\<rparr>) None None 0)
         (noChange\<lparr>new_samplingRates := Some [Info \<mapsto> 0.8]\<rparr>) 0)) Debug = 1
   \<and> samplingRate (config (updateConfig
         (newLogCollector (noChange\<lparr>new_samplingRates := Some [Debug \<mapsto> 0.1, Info \<mapsto> 0.5]\<rparr>) None None 0)
         (noChange\<lparr>new_samplingRates := Some [Info \<mapsto> 0.8]\<rparr>) 0)) Info = 0.8"
  using updateConfig_replaces_samplingRates
          [of "noChange\<lparr>new_samplingRates := Some [Info \<mapsto> 0.8]\<rparr>" "[Info \<mapsto> 0.8]"
              "newLogCollector (noChange\<lparr>new_samplingRates := Some [Debug \<mapsto> 0.1, Info \<mapsto> 0.5]\<rparr>) None None 0" 0]
  by (simp add: noChange_def newLogCollector_def defaultConfig_def mergeConfig_def samplingRate_def
        startBatchTimer_def Let_def)

subsection \<open>Breadcrumb ring\<close>

lemma config_pushBreadcrumb: "config (pushBreadcrumb c b) = config c"
  by (simp add: pushBreadcrumb_def Let_def)

lemma config_addBreadcrumb: "config (addBreadcrumb c now type message data) = config c"
  by (simp add: addBreadcrumb_def Let_def config_pushBreadcrumb split: option.splits)

lemma drop_last_append:
  "drop (length (drop (length xs - n) xs @ ys) - n) (drop (length xs - n) xs @ ys)
     = drop (length (xs @ ys) - n) (xs @ ys)"
  by (cases "length xs \<le> n") (auto simp: add.commute)

lemma breadcrumbs_pushBreadcrumb:
  assumes "length (breadcrumbs c) \<le> maxBreadcrumbs (config c)"
  shows "breadcrumbs (pushBreadcrumb c b)
           = drop (length (breadcrumbs c @ [b]) - maxBreadcrumbs (config c)) (breadcrumbs c @ [b])"
proof (cases "length (breadcrumbs c @ [b]) > maxBreadcrumbs (config c)")
  case True
  with assms have "length (breadcrumbs c @ [b]) - maxBreadcrumbs (config c) = Suc 0" by simp
  moreover have "breadcrumbs (pushBreadcrumb c b) = tl (breadcrumbs c @ [b])"
    using True by (simp add: pushBreadcrumb_def Let_def)
  ultimately show ?thesis by (simp only: drop_Suc drop_0)
next
  case False
  then show ?thesis by (simp add: pushBreadcrumb_def Let_def)
qed

lemma length_pushBreadcrumb:
  assumes "length (breadcrumbs c) \<le> maxBreadcrumbs (config c)"
  shows "length (breadcrumbs (pushBreadcrumb c b)) \<le> maxBreadcrumbs (config c)"
  using assms by (auto simp: pushBreadcrumb_def Let_def)

lemma ring_invariant:
  assumes "length (breadcrumbs c) \<le> maxBreadcrumbs (config c)"
  shows "breadcrumbs (addBreadcrumbs c inputs)
           = drop (length (breadcrumbs c @ acceptedBreadcrumbs (config c) inputs) - maxBreadcrumbs (config c))
               (breadcrumbs c @ acceptedBreadcrumbs (config c) inputs)"
  using assms
proof (induction inputs arbitrary: c)
  case Nil
  then show ?case by (simp add: addBreadcrumbs_def acceptedBreadcrumbs_def List.map_filter_simps)
next
  case (Cons a inputs)
  let ?b = "\<lparr>bc_timestamp = fst a, bc_type = fst (snd a), bc_message = fst (snd (snd a)),
              bc_data = snd (snd (snd a))\<rparr>"
  let ?hook = "case beforeBreadcrumb (config c) of Some hook \<Rightarrow> hook ?b | None \<Rightarrow> Some ?b"
  let ?c1 = "addBreadcrumb c (fst a) (fst (snd a)) (fst (snd (snd a))) (snd (snd (snd a)))"
  let ?C = "maxBreadcrumbs (config c)"
  have cfg: "config ?c1 = config c" by (rule config_addBreadcrumb)
  have run: "addBreadcrumbs c (a # inputs) = addBreadcrumbs ?c1 inputs"
    by (simp add: addBreadcrumbs_def)
  show ?case
  proof (cases ?hook)
    case None
    then have same: "?c1 = c"
      by (auto simp: addBreadcrumb_def Let_def split: option.splits)
    have acc: "acceptedBreadcrumbs (config c) (a # inputs) = acceptedBreadcrumbs (config c) inputs"
      using None by (simp add: acceptedBreadcrumbs_def List.map_filter_simps Let_def)
    show ?thesis using Cons.IH [OF Cons.prems] by (simp only: run same acc)
  next
    case (Some b)
    then have step: "?c1 = pushBreadcrumb c b"
      by (auto simp: addBreadcrumb_def Let_def split: option.splits)
    have acc: "acceptedBreadcrumbs (config c) (a # inputs) = b # acceptedBreadcrumbs (config c) inputs"
      using Some by (simp add: acceptedBreadcrumbs_def List.map_filter_simps Let_def)
    have len: "length (breadcrumbs ?c1) \<le> maxBreadcrumbs (config ?c1)"
      unfolding step using length_pushBreadcrumb [OF Cons.prems] by (simp add: config_pushBreadcrumb)
    have bs: "breadcrumbs ?c1 = drop (length (breadcrumbs c @ [b]) - ?C) (breadcrumbs c @ [b])"
      unfolding step by (rule breadcrumbs_pushBreadcrumb [OF Cons.prems])
    show ?thesis
      using Cons.IH [OF len]
        drop_last_append [of "breadcrumbs c @ [b]" ?C "acceptedBreadcrumbs (config c) inputs"]
      by (simp only: run cfg acc bs append_assoc append_Cons append_Nil)
  qed
qed

text \<open>
  Claim C8. Starting from an empty ring, after any sequence of \<^verbatim>\<open>addBreadcrumb\<close> calls the
  ring holds exactly the last \<open>min N C\<close> of the \<open>N\<close> breadcrumbs that
  \<^verbatim>\<open>beforeBreadcrumb\<close> let through, in insertion order, where \<open>C\<close> is
  \<^verbatim>\<open>maxBreadcrumbs\<close>.
\<close>

theorem breadcrumb_ring_fifo:
  assumes "breadcrumbs c = []"
  shows "breadcrumbs (addBreadcrumbs c inputs)
           = (let accepted = acceptedBreadcrumbs (config c) inputs;
                  n = length accepted
              in drop (n - min n (maxBreadcrumbs (config c))) accepted)"
proof -
  have "length (breadcrumbs c) \<le> maxBreadcrumbs (config c)" using assms by simp
  from ring_invariant [OF this, of inputs] assms show ?thesis
    by (simp add: Let_def min_def)
qed

theorem breadcrumb_ring_fifo_witness:
  "breadcrumbs (newLogCollector (noChange\<lparr>new_maxBreadcrumbs := Some 2\<rparr>) None None 0) = []
   \<and> map bc_message
       (breadcrumbs (addBreadcrumbs (newLogCollector (noChange\<lparr>new_maxBreadcrumbs := Some 2\<rparr>) None None 0)
          [(''t1'', Click, ''one'', None), (''t2'', Navigation, ''two'', None),
           (''t3'', Custom, ''three'', None)]))
     = [''two'', ''three'']"
  using breadcrumb_ring_fifo
          [of "newLogCollector (noChange\<lparr>new_maxBreadcrumbs := Some 2\<rparr>) None None 0"
              "[(''t1'', Click, ''one'', None), (''t2'', Navigation, ''two'', None),
                (''t3'', Custom, ''three'', None)]"]
  by (simp add: noChange_def newLogCollector_def defaultConfig_def mergeConfig_def
        startBatchTimer_def Let_def acceptedBreadcrumbs_def List.map_filter_simps)

subsection \<open>Rate limit\<close>







subsection \<open>Delivery and circuit breaker\<close>

lemma flushQueue_circuit_open: "circuitOpen c \<Longrightarrow> flushQueue c retries isUnload env = c"
  by (simp add: flushQueue_def)

lemma flushRun_circuit_open: "circuitOpen c \<Longrightarrow> flushRun c steps = c"
  by (induction steps) (simp_all add: flushQueue_circuit_open)

lemma selectBatch_fields:
  "events (snd (snd (selectBatch c))) = events c"
  "config (snd (snd (selectBatch c))) = config c"
  "circuitOpen (snd (snd (selectBatch c))) = circuitOpen c"
  "consecutiveFailures (snd (snd (selectBatch c))) = consecutiveFailures c"
  "circuitResetTimer (snd (snd (selectBatch c))) = circuitResetTimer c"
  by (simp_all add: selectBatch_def Let_def case_prod_beta split: option.splits)

lemma emit_fields:
  "events (emit e c) = events c @ [e]"
  "config (emit e c) = config c"
  "circuitOpen (emit e c) = circuitOpen c"
  "consecutiveFailures (emit e c) = consecutiveFailures c"
  "circuitResetTimer (emit e c) = circuitResetTimer c"
  by (simp_all add: emit_def)

lemma handleSendSuccess_fields:
  "events (handleSendSuccess c logs ids) = events c @ [OnSendSuccess logs]"
  "config (handleSendSuccess c logs ids) = config c"
  "circuitOpen (handleSendSuccess c logs ids) = False"
  "consecutiveFailures (handleSendSuccess c logs ids) = 0"
  "circuitResetTimer (handleSendSuccess c logs ids) = None"
  by (simp_all add: handleSendSuccess_def Let_def closeCircuit_def emit_def split: option.splits)

lemma handleSendFailure_fields:
  "config (handleSendFailure c logs retries err jitter) = config c"
  "consecutiveFailures (handleSendFailure c logs retries err jitter) = consecutiveFailures c + 1"
  "circuitOpen (handleSendFailure c logs retries err jitter)
     = (circuitOpen c \<or> consecutiveFailures c + 1 \<ge> CIRCUIT_BREAKER_THRESHOLD)"
  "circuitResetTimer (handleSendFailure c logs retries err jitter)
     = (if consecutiveFailures c + 1 \<ge> CIRCUIT_BREAKER_THRESHOLD
        then Some CIRCUIT_BREAKER_RESET_DELAY else circuitResetTimer c)"
  by (simp_all add: handleSendFailure_def Let_def openCircuit_def emit_def)

lemma handleSendFailure_events:
  "events (handleSendFailure c logs retries err jitter)
     = events c @ [OnSendFailure err logs,
         if consecutiveFailures c + 1 \<ge> CIRCUIT_BREAKER_THRESHOLD
         then ConsoleError ''Circuit breaker opened due to too many failures''
         else if retries < maxRetries (config c)
         then ScheduleFlush (retries + 1) (real (retryDelayMs (config c)) * 2 ^ retries + jitter)
         else ConsoleError ''Max retries reached for batch'']"
  by (simp add: handleSendFailure_def Let_def openCircuit_def emit_def)

lemma list_ex_drop_snoc:
  "\<not> P e \<Longrightarrow> list_ex P (drop n (xs @ [e])) = list_ex P (drop n xs)"
  by (cases "n - length xs") (auto simp: list_ex_iff)

lemma processQueue_fields:
  "config (processQueue c) = config c"
  "circuitOpen (processQueue c) = circuitOpen c"
  "consecutiveFailures (processQueue c) = consecutiveFailures c"
  "circuitResetTimer (processQueue c) = circuitResetTimer c"
  "list_ex isSendFailure (drop n (events (processQueue c))) = list_ex isSendFailure (drop n (events c))"
  "list_ex isSendSuccess (drop n (events (processQueue c))) = list_ex isSendSuccess (drop n (events c))"
  by (simp_all add: processQueue_def emit_def list_ex_drop_snoc del: drop_append split: option.splits)

lemma sendBatch_failure:
  assumes "list_ex isSendFailure (drop (length (events c)) (events (sendBatch c logs ids r u env)))"
  shows "consecutiveFailures (sendBatch c logs ids r u env) = consecutiveFailures c + 1"
    and "circuitOpen (sendBatch c logs ids r u env)
           = (circuitOpen c \<or> consecutiveFailures c + 1 \<ge> CIRCUIT_BREAKER_THRESHOLD)"
    and "circuitResetTimer (sendBatch c logs ids r u env)
           = (if consecutiveFailures c + 1 \<ge> CIRCUIT_BREAKER_THRESHOLD
              then Some CIRCUIT_BREAKER_RESET_DELAY else circuitResetTimer c)"
  using assms
  by (auto simp: sendBatch_def Let_def handleSendSuccess_fields handleSendFailure_fields
        handleSendFailure_events emit_fields
      split: beaconOutcome.splits fetchOutcome.splits bool.splits if_splits)

lemma sendBatch_success:
  assumes "list_ex isSendSuccess (drop (length (events c)) (events (sendBatch c logs ids r u env)))"
  shows "consecutiveFailures (sendBatch c logs ids r u env) = 0"
    and "\<not> circuitOpen (sendBatch c logs ids r u env)"
    and "circuitResetTimer (sendBatch c logs ids r u env) = None"
  using assms
  by (auto simp: sendBatch_def Let_def handleSendSuccess_fields handleSendFailure_fields
        handleSendFailure_events emit_fields
      split: beaconOutcome.splits fetchOutcome.splits bool.splits if_splits)

lemma flushQueue_unfold:
  assumes "\<not> isSending c" "\<not> circuitOpen c" "dsn (config c) \<noteq> []"
    and "selectBatch (c\<lparr>isSending := True\<rparr>) = (logs, ids, c1)" "logs \<noteq> []"
  shows "flushQueue c r u env = sendBatch c1 logs ids r u env\<lparr>isSending := False\<rparr>
         \<or> flushQueue c r u env = processQueue (sendBatch c1 logs ids r u env\<lparr>isSending := False\<rparr>)"
  using assms by (simp add: flushQueue_def Let_def)

text \<open>
  A flush that invoked one of the callbacks passed the three guards, took a non-empty
  batch, and ended in \<^verbatim>\<open>sendBatch\<close>.
\<close>

lemma flush_with_callback:
  assumes "list_ex P (newEvents c (flushQueue c r u env))"
  obtains logs ids c1 where "\<not> circuitOpen c"
    and "events c1 = events c" "circuitOpen c1 = circuitOpen c"
    and "consecutiveFailures c1 = consecutiveFailures c" "circuitResetTimer c1 = circuitResetTimer c"
    and "flushQueue c r u env = sendBatch c1 logs ids r u env\<lparr>isSending := False\<rparr>
         \<or> flushQueue c r u env = processQueue (sendBatch c1 logs ids r u env\<lparr>isSending := False\<rparr>)"
proof -
  have guard: "\<not> isSending c \<and> \<not> circuitOpen c \<and> dsn (config c) \<noteq> []"
  proof (rule ccontr)
    assume "\<not> ?thesis"
    then have "flushQueue c r u env = c" by (auto simp: flushQueue_def)
    with assms show False by (simp add: newEvents_def)
  qed
  obtain logs ids c1 where sel: "selectBatch (c\<lparr>isSending := True\<rparr>) = (logs, ids, c1)"
    by (cases "selectBatch (c\<lparr>isSending := True\<rparr>)") auto
  have c1: "events c1 = events c" "circuitOpen c1 = circuitOpen c"
    "consecutiveFailures c1 = consecutiveFailures c" "circuitResetTimer c1 = circuitResetTimer c"
    using selectBatch_fields [of "c\<lparr>isSending := True\<rparr>"] by (simp_all add: sel)
  have nonempty: "logs \<noteq> []"
  proof
    assume "logs = []"
    then have "events (flushQueue c r u env) = events c"
      using guard sel c1 by (simp add: flushQueue_def)
    with assms show False by (simp add: newEvents_def)
  qed
  from flushQueue_unfold [of c logs ids c1 r u env] guard sel nonempty c1 that
  show thesis by blast
qed

lemma failureReported_effect:
  assumes "failureReported c r u env"
  shows "\<not> circuitOpen c"
    and "consecutiveFailures (flushQueue c r u env) = consecutiveFailures c + 1"
    and "circuitOpen (flushQueue c r u env) = (consecutiveFailures c + 1 \<ge> CIRCUIT_BREAKER_THRESHOLD)"
    and "circuitResetTimer (flushQueue c r u env)
           = (if consecutiveFailures c + 1 \<ge> CIRCUIT_BREAKER_THRESHOLD
              then Some CIRCUIT_BREAKER_RESET_DELAY else circuitResetTimer c)"
proof -
  have ev: "list_ex isSendFailure (newEvents c (flushQueue c r u env))"
    using assms by (simp add: failureReported_def)
  from flush_with_callback [OF ev] obtain logs ids c1 where closed: "\<not> circuitOpen c"
    and c1: "events c1 = events c" "circuitOpen c1 = circuitOpen c"
      "consecutiveFailures c1 = consecutiveFailures c" "circuitResetTimer c1 = circuitResetTimer c"
    and res: "flushQueue c r u env = sendBatch c1 logs ids r u env\<lparr>isSending := False\<rparr>
         \<or> flushQueue c r u env = processQueue (sendBatch c1 logs ids r u env\<lparr>isSending := False\<rparr>)"
    by blast
  let ?c2 = "sendBatch c1 logs ids r u env"
  have fail: "list_ex isSendFailure (drop (length (events c1)) (events ?c2))"
    using ev res by (auto simp: newEvents_def processQueue_fields c1)
  note sb = sendBatch_failure [OF fail]
  show "\<not> circuitOpen c" by (rule closed)
  show "consecutiveFailures (flushQueue c r u env) = consecutiveFailures c + 1"
    using res sb(1) by (auto simp: processQueue_fields c1)
  show "circuitOpen (flushQueue c r u env) = (consecutiveFailures c + 1 \<ge> CIRCUIT_BREAKER_THRESHOLD)"
    using res sb(2) closed by (auto simp: processQueue_fields c1)
  show "circuitResetTimer (flushQueue c r u env)
           = (if consecutiveFailures c + 1 \<ge> CIRCUIT_BREAKER_THRESHOLD
              then Some CIRCUIT_BREAKER_RESET_DELAY else circuitResetTimer c)"
    using res sb(3) by (auto simp: processQueue_fields c1)
qed

lemma successReported_effect:
  assumes "successReported c r u env"
  shows "\<not> circuitOpen (flushQueue c r u env)"
    and "consecutiveFailures (flushQueue c r u env) = 0"
    and "circuitResetTimer (flushQueue c r u env) = None"
proof -
  have ev: "list_ex isSendSuccess (newEvents c (flushQueue c r u env))"
    using assms by (simp add: successReported_def)
  from flush_with_callback [OF ev] obtain logs ids c1 where
    c1: "events c1 = events c"
    and res: "flushQueue c r u env = sendBatch c1 logs ids r u env\<lparr>isSending := False\<rparr>
         \<or> flushQueue c r u env = processQueue (sendBatch c1 logs ids r u env\<lparr>isSending := False\<rparr>)"
    by blast
  let ?c2 = "sendBatch c1 logs ids r u env"
  have "list_ex isSendSuccess (drop (length (events c1)) (events ?c2))"
    using ev res by (auto simp: newEvents_def processQueue_fields c1)
  note sb = sendBatch_success [OF this]
  show "\<not> circuitOpen (flushQueue c r u env)" using res sb(2) by (auto simp: processQueue_fields)
  show "consecutiveFailures (flushQueue c r u env) = 0" using res sb(1) by (auto simp: processQueue_fields)
  show "circuitResetTimer (flushQueue c r u env) = None" using res sb(3) by (auto simp: processQueue_fields)
qed

lemma failed_run:
  assumes "allFailuresReported c steps" "steps \<noteq> []"
  shows "consecutiveFailures (flushRun c steps) = consecutiveFailures c + length steps
         \<and> circuitOpen (flushRun c steps)
             = (consecutiveFailures c + length steps \<ge> CIRCUIT_BREAKER_THRESHOLD)
         \<and> (if circuitOpen (flushRun c steps)
             then circuitResetTimer (flushRun c steps) = Some CIRCUIT_BREAKER_RESET_DELAY else True)"
  using assms
proof (induction steps arbitrary: c)
  case Nil
  then show ?case by simp
next
  case (Cons step steps)
  let ?c1 = "flushQueue c (fst step) False (snd step)"
  from Cons.prems have f: "failureReported c (fst step) False (snd step)"
    and rest: "allFailuresReported ?c1 steps" by simp_all
  note eff = failureReported_effect [OF f]
  show ?case
  proof (cases "steps = []")
    case True
    then show ?thesis using eff by simp
  next
    case False
    from Cons.IH [OF rest False] eff(2) show ?thesis by simp
  qed
qed

lemma ready_batch:
  assumes "readyWithStore c"
  obtains st logs ids where "indexedDBStore c = Some st" "db st" "logs \<noteq> []"
    and "selectBatch (c\<lparr>isSending := True\<rparr>)
           = (logs, ids, c\<lparr>isSending := True,
                             indexedDBStore := Some (st\<lparr>ops := ops st @ [IdbTransaction ReadOnly]\<rparr>)\<rparr>)"
proof -
  from assms obtain st where st: "indexedDBStore c = Some st" "db st" "objects st \<noteq> []"
    and bs: "batchSize (config c) > 0"
    by (auto simp: readyWithStore_def split: option.splits)
  let ?logs = "take (batchSize (config c)) (map snd (objects st))"
  have "?logs \<noteq> []" using st(3) bs by (cases "objects st") (auto simp: take_Cons')
  moreover have "selectBatch (c\<lparr>isSending := True\<rparr>)
      = (?logs, List.map_filter idProperty ?logs,
         c\<lparr>isSending := True, indexedDBStore := Some (st\<lparr>ops := ops st @ [IdbTransaction ReadOnly]\<rparr>)\<rparr>)"
    using st by (simp add: selectBatch_def getAllLogs_def ensureDb_def Let_def)
  ultimately show thesis using that st by blast
qed

lemma ready_flush_error:
  assumes "readyWithStore c" "\<not> circuitOpen c" "httpError env"
  shows "failureReported c r False env" and "readyWithStore (flushQueue c r False env)"
proof -
  from ready_batch [OF assms(1)] obtain st logs ids where st: "indexedDBStore c = Some st" "db st"
    and logs: "logs \<noteq> []"
    and sel: "selectBatch (c\<lparr>isSending := True\<rparr>)
           = (logs, ids, c\<lparr>isSending := True,
                             indexedDBStore := Some (st\<lparr>ops := ops st @ [IdbTransaction ReadOnly]\<rparr>)\<rparr>)"
    by blast
  from assms(3) obtain response where env: "env_fetch env = FetchResolves response" "\<not> resp_ok response"
    by (auto simp: httpError_def split: fetchOutcome.splits)
  have guard: "\<not> isSending c" "dsn (config c) \<noteq> []" "batchSize (config c) > 0" "objects st \<noteq> []"
    using assms(1) st by (auto simp: readyWithStore_def)
  show "failureReported c r False env"
    using guard assms(2) sel logs env
    by (simp add: failureReported_def newEvents_def flushQueue_def sendBatch_def Let_def
          handleSendFailure_events emit_fields processQueue_def emit_def handleSendFailure_def
          openCircuit_def)
  show "readyWithStore (flushQueue c r False env)"
    using guard assms(2) sel logs env st
    by (simp add: readyWithStore_def flushQueue_def sendBatch_def Let_def
          processQueue_def emit_def handleSendFailure_def openCircuit_def)
qed

lemma ready_flush_ok:
  assumes "readyWithStore c" "\<not> circuitOpen c" "httpOk env"
  shows "successReported c r False env"
proof -
  from ready_batch [OF assms(1)] obtain st logs ids where st: "indexedDBStore c = Some st" "db st"
    and logs: "logs \<noteq> []"
    and sel: "selectBatch (c\<lparr>isSending := True\<rparr>)
           = (logs, ids, c\<lparr>isSending := True,
                             indexedDBStore := Some (st\<lparr>ops := ops st @ [IdbTransaction ReadOnly]\<rparr>)\<rparr>)"
    by blast
  from assms(3) obtain response where env: "env_fetch env = FetchResolves response" "resp_ok response"
    by (auto simp: httpOk_def split: fetchOutcome.splits)
  have guard: "\<not> isSending c" "dsn (config c) \<noteq> []"
    using assms(1) by (auto simp: readyWithStore_def)
  show ?thesis
    using guard assms(2) sel logs env
    by (simp add: successReported_def newEvents_def flushQueue_def sendBatch_def Let_def
          processQueue_def emit_def handleSendSuccess_def closeCircuit_def)
qed

lemma ready_flushRun:
  assumes "readyWithStore c" "list_all (\<lambda>step. httpError (snd step)) steps"
  shows "readyWithStore (flushRun c steps)"
  using assms
proof (induction steps arbitrary: c)
  case Nil
  then show ?case by simp
next
  case (Cons step steps)
  have "readyWithStore (flushQueue c (fst step) False (snd step))"
  proof (cases "circuitOpen c")
    case True
    then show ?thesis using Cons.prems(1) by (simp add: flushQueue_circuit_open)
  next
    case False
    then show ?thesis using Cons.prems ready_flush_error(2) by simp
  qed
  then show ?case using Cons.IH Cons.prems(2) by simp
qed

lemma ready_allFailuresReported:
  assumes "readyWithStore c" "\<not> circuitOpen c"
    and "consecutiveFailures c + length steps \<le> CIRCUIT_BREAKER_THRESHOLD"
    and "list_all (\<lambda>step. httpError (snd step)) steps"
  shows "allFailuresReported c steps"
  using assms
proof (induction steps arbitrary: c)
  case Nil
  then show ?case by simp
next
  case (Cons step steps)
  let ?c1 = "flushQueue c (fst step) False (snd step)"
  from Cons.prems have err: "httpError (snd step)" by simp
  note f = ready_flush_error [OF Cons.prems(1,2) err, of "fst step"]
  note eff = failureReported_effect [OF f(1)]
  show ?case
  proof (cases "steps = []")
    case True
    then show ?thesis using f(1) by simp
  next
    case False
    then have "length steps \<ge> 1" by (cases steps) simp_all
    with Cons.prems(3) have closed: "\<not> circuitOpen ?c1" using eff(3) by simp
    have "consecutiveFailures ?c1 + length steps \<le> CIRCUIT_BREAKER_THRESHOLD"
      using Cons.prems(3) eff(2) by simp
    from Cons.IH [OF f(2) closed this] Cons.prems(4) f(1) show ?thesis by simp
  qed
qed

lemma ready_circuitResetTimeout: "readyWithStore c \<Longrightarrow> readyWithStore (circuitResetTimeout c)"
  by (simp add: readyWithStore_def circuitResetTimeout_def)

lemma oneCapture_ready:
  "readyWithStore oneCapture \<and> \<not> circuitOpen oneCapture \<and> consecutiveFailures oneCapture = 0"
  by (simp add: oneCapture_def readyWithStore_def newLogCollector_def noChange_def defaultConfig_def mergeConfig_def
        startBatchTimer_def initRateLimiter_def exampleEnv_def exampleDsn_def uuidF_def uuid0_def
        newIndexedDBStore_def captureLog_def samplingRate_def rateLimit_def minuteKey_def
        maskAndHook_def maskSensitiveFields_def buildEntry_def entry_id_def idProperty_def
        assign_id_def persistQueue_def saveLogsToLocalStorage_def addLog_def ensureDb_def
        openDb_def processQueue_def emit_def Let_def)

lemma fiveFailures_errors: "list_all (\<lambda>step. httpError (snd step)) fiveFailures"
  by (simp add: fiveFailures_def httpError_def http500_def)

lemma oneCapture_fiveFailures: "allFailuresReported oneCapture fiveFailures"
  using oneCapture_ready fiveFailures_errors
  by (intro ready_allFailuresReported) (simp_all add: fiveFailures_def CIRCUIT_BREAKER_THRESHOLD_def)

lemma tripped_ready:
  "readyWithStore tripped \<and> circuitOpen tripped \<and> circuitResetTimer tripped = Some 60000"
proof -
  have len: "length fiveFailures = 5" and "fiveFailures \<noteq> []"
    by (simp_all add: fiveFailures_def)
  from failed_run [OF oneCapture_fiveFailures this(2)] oneCapture_ready len
  have "circuitOpen tripped \<and> circuitResetTimer tripped = Some 60000"
    by (simp add: tripped_def CIRCUIT_BREAKER_THRESHOLD_def CIRCUIT_BREAKER_RESET_DELAY_def)
  moreover have "readyWithStore tripped"
    unfolding tripped_def using oneCapture_ready fiveFailures_errors by (intro ready_flushRun) simp_all
  ultimately show ?thesis by simp
qed

lemma reset_tripped_ready:
  "readyWithStore (circuitResetTimeout tripped) \<and> \<not> circuitOpen (circuitResetTimeout tripped)
   \<and> consecutiveFailures (circuitResetTimeout tripped) = 0"
  using tripped_ready by (simp add: ready_circuitResetTimeout) (simp add: circuitResetTimeout_def)

text \<open>
  A flush whose \<^verbatim>\<open>fetch\<close> call rejects: the inner \<^verbatim>\<open>catch\<close> logs the error, and the
  breaker and the failure count are as before, whatever the collector.
\<close>

lemma sendBatch_rejects:
  "env_fetch env = FetchRejects e \<Longrightarrow> sendBatch c logs ids r False env = emit (Post logs False) c"
  by (simp add: sendBatch_def)

lemma rejected_flush:
  assumes "transportThrows env"
  shows "circuitOpen (flushQueue c r False env) = circuitOpen c
         \<and> consecutiveFailures (flushQueue c r False env) = consecutiveFailures c"
proof (cases "isSending c \<or> circuitOpen c \<or> dsn (config c) = []")
  case True
  then show ?thesis by (auto simp: flushQueue_def)
next
  case False
  from assms obtain e where env: "env_fetch env = FetchRejects e"
    by (auto simp: transportThrows_def split: fetchOutcome.splits)
  obtain logs ids c1 where sel: "selectBatch (c\<lparr>isSending := True\<rparr>) = (logs, ids, c1)"
    by (cases "selectBatch (c\<lparr>isSending := True\<rparr>)") auto
  have c1: "circuitOpen c1 = circuitOpen c" "consecutiveFailures c1 = consecutiveFailures c"
    using selectBatch_fields [of "c\<lparr>isSending := True\<rparr>"] by (simp_all add: sel)
  show ?thesis
  proof (cases "logs = []")
    case True
    then show ?thesis using False sel c1 by (simp add: flushQueue_def)
  next
    case nonempty: False
    from flushQueue_unfold [of c logs ids c1 r False env] False sel nonempty
    have "flushQueue c r False env = sendBatch c1 logs ids r False env\<lparr>isSending := False\<rparr>
          \<or> flushQueue c r False env
              = processQueue (sendBatch c1 logs ids r False env\<lparr>isSending := False\<rparr>)"
      by simp
    then show ?thesis
      by (auto simp: sendBatch_rejects [OF env] emit_fields processQueue_fields c1)
  qed
qed

lemma ready_flush_rejects:
  assumes "readyWithStore c" "\<not> circuitOpen c" "transportThrows env"
  shows "list_ex isTransmission (newEvents c (flushQueue c r False env))"
    and "\<not> list_ex isSendFailure (newEvents c (flushQueue c r False env))"
    and "readyWithStore (flushQueue c r False env)"
proof -
  from ready_batch [OF assms(1)] obtain st logs ids where st: "indexedDBStore c = Some st" "db st"
    and logs: "logs \<noteq> []"
    and sel: "selectBatch (c\<lparr>isSending := True\<rparr>)
           = (logs, ids, c\<lparr>isSending := True,
                             indexedDBStore := Some (st\<lparr>ops := ops st @ [IdbTransaction ReadOnly]\<rparr>)\<rparr>)"
    by blast
  from assms(3) obtain e where env: "env_fetch env = FetchRejects e"
    by (auto simp: transportThrows_def split: fetchOutcome.splits)
  have guard: "\<not> isSending c" "dsn (config c) \<noteq> []" "batchSize (config c) > 0" "objects st \<noteq> []"
    using assms(1) st by (auto simp: readyWithStore_def)
  show "list_ex isTransmission (newEvents c (flushQueue c r False env))"
    using guard assms(2) sel logs env
    by (simp add: newEvents_def flushQueue_def sendBatch_def Let_def processQueue_def emit_def)
  show "\<not> list_ex isSendFailure (newEvents c (flushQueue c r False env))"
    using guard assms(2) sel logs env
    by (simp add: newEvents_def flushQueue_def sendBatch_def Let_def processQueue_def emit_def)
  show "readyWithStore (flushQueue c r False env)"
    using guard assms(2) sel logs env st
    by (simp add: readyWithStore_def flushQueue_def sendBatch_def Let_def processQueue_def emit_def)
qed

lemma rejected_run:
  assumes "readyWithStore c" "\<not> circuitOpen c"
    and "list_all (\<lambda>step. transportThrows (snd step)) steps"
  shows "readyWithStore (flushRun c steps) \<and> \<not> circuitOpen (flushRun c steps)
         \<and> consecutiveFailures (flushRun c steps) = consecutiveFailures c"
  using assms
proof (induction steps arbitrary: c)
  case Nil
  then show ?case by simp
next
  case (Cons step steps)
  let ?c1 = "flushQueue c (fst step) False (snd step)"
  from Cons.prems have thr: "transportThrows (snd step)" by simp
  have ready: "readyWithStore ?c1" by (rule ready_flush_rejects(3) [OF Cons.prems(1,2) thr])
  have same: "\<not> circuitOpen ?c1" "consecutiveFailures ?c1 = consecutiveFailures c"
    using rejected_flush [OF thr, of c "fst step"] Cons.prems(2) by simp_all
  from Cons.IH [OF ready same(1)] Cons.prems(3) same(2) show ?case by simp
qed

lemma fiveRejections_throw: "list_all (\<lambda>step. transportThrows (snd step)) fiveRejections"
  by (simp add: fiveRejections_def transportThrows_def fetchRejects_def)

text \<open>
  Claim C5 against the code. Five flushes in a row fail because \<^verbatim>\<open>fetch\<close> rejects: the
  circuit is still closed, the failure count is 0, and the next flush sends a request
  again. Five flushes in a row answered with HTTP 500 do open the circuit and arm the timer
  with 60000 ms, and a flush on that open circuit returns the collector unchanged.
\<close>

theorem five_rejected_flushes_leave_circuit_closed:
  "\<not> circuitOpen (flushRun oneCapture fiveRejections)
   \<and> consecutiveFailures (flushRun oneCapture fiveRejections) = 0
   \<and> list_ex isTransmission
        (newEvents (flushRun oneCapture fiveRejections)
           (flushQueue (flushRun oneCapture fiveRejections) 0 False fetchRejects))
   \<and> circuitOpen (flushRun oneCapture fiveFailures)
   \<and> circuitResetTimer (flushRun oneCapture fiveFailures) = Some 60000
   \<and> flushQueue (flushRun oneCapture fiveFailures) 0 False http200
       = flushRun oneCapture fiveFailures"
proof -
  from oneCapture_ready have start: "readyWithStore oneCapture" "\<not> circuitOpen oneCapture"
    "consecutiveFailures oneCapture = 0" by simp_all
  note run = rejected_run [OF start(1,2) fiveRejections_throw]
  have thr: "transportThrows fetchRejects"
    by (simp add: transportThrows_def fetchRejects_def)
  from run have ready: "readyWithStore (flushRun oneCapture fiveRejections)"
    and closed: "\<not> circuitOpen (flushRun oneCapture fiveRejections)" by simp_all
  note sent = ready_flush_rejects(1) [OF ready closed thr, of 0]
  from tripped_ready have opened: "circuitOpen (flushRun oneCapture fiveFailures)"
    "circuitResetTimer (flushRun oneCapture fiveFailures) = Some 60000"
    by (simp_all add: tripped_def)
  from run start(3) sent opened flushQueue_circuit_open [OF opened(1), of 0 False http200]
  show ?thesis by simp
qed

text \<open>
  Claim C3 against the code. The circuit was open and the reset timer fired; the callback
  logs that the breaker moved to the half-open state, clears \<^verbatim>\<open>circuitOpen\<close> and sets
  \<^verbatim>\<open>consecutiveFailures\<close> to 0. The flush it attempts is answered with HTTP 500 and
  \<^verbatim>\<open>onSendFailure\<close> is invoked, yet the circuit is not open afterwards: the failure counts
  as the first of five. A flush whose \<^verbatim>\<open>fetch\<close> rejects leaves the circuit closed as
  well. A flush answered with HTTP 200 leaves it closed, as the claim says.
\<close>

theorem failure_after_reset_stays_closed:
  "circuitOpen tripped
   \<and> failureReported (circuitResetTimeout tripped) 0 False http500
   \<and> \<not> circuitOpen (flushQueue (circuitResetTimeout tripped) 0 False http500)
   \<and> consecutiveFailures (flushQueue (circuitResetTimeout tripped) 0 False http500) = 1
   \<and> \<not> circuitOpen (flushQueue (circuitResetTimeout tripped) 0 False fetchRejects)
   \<and> successReported (circuitResetTimeout tripped) 0 False http200
   \<and> \<not> circuitOpen (flushQueue (circuitResetTimeout tripped) 0 False http200)"
proof -
  have err: "httpError http500" by (simp add: httpError_def http500_def)
  from reset_tripped_ready have fails: "failureReported (circuitResetTimeout tripped) 0 False http500"
    using err by (intro ready_flush_error(1)) simp_all
  from failureReported_effect(2,3) [OF fails] reset_tripped_ready
  have ko: "\<not> circuitOpen (flushQueue (circuitResetTimeout tripped) 0 False http500)"
    "consecutiveFailures (flushQueue (circuitResetTimeout tripped) 0 False http500) = 1"
    by (simp_all add: CIRCUIT_BREAKER_THRESHOLD_def)
  have "transportThrows fetchRejects"
    by (simp add: transportThrows_def fetchRejects_def)
  from rejected_flush [OF this, of "circuitResetTimeout tripped" 0] reset_tripped_ready
  have thrown: "\<not> circuitOpen (flushQueue (circuitResetTimeout tripped) 0 False fetchRejects)"
    by simp
  have "httpOk http200" by (simp add: httpOk_def http200_def)
  with reset_tripped_ready have ok: "successReported (circuitResetTimeout tripped) 0 False http200"
    by (intro ready_flush_ok) simp_all
  from successReported_effect(1) [OF ok] fails ko thrown ok tripped_ready show ?thesis by simp
qed

text \<open>
  Claim C1 against the code. A flush whose \<^verbatim>\<open>fetch\<close> call rejects sends the request and
  nothing more: the failure count stays 0, \<^verbatim>\<open>onSendFailure\<close> is not invoked and no retry
  is scheduled. The same flush answered with HTTP 500 counts one failure, invokes
  \<^verbatim>\<open>onSendFailure\<close> and schedules the retry.
\<close>

theorem fetch_rejection_not_counted:
  "consecutiveFailures (flushQueue oneCapture 0 False fetchRejects) = 0
   \<and> \<not> list_ex isSendFailure (events (flushQueue oneCapture 0 False fetchRejects))
   \<and> \<not> list_ex isRetry (events (flushQueue oneCapture 0 False fetchRejects))
   \<and> length (transmitted (events (flushQueue oneCapture 0 False fetchRejects))) = 1
   \<and> consecutiveFailures (flushQueue oneCapture 0 False http500) = 1
   \<and> list_ex isSendFailure (events (flushQueue oneCapture 0 False http500))
   \<and> list_ex isRetry (events (flushQueue oneCapture 0 False http500))"
  by (simp add: oneCapture_def newLogCollector_def noChange_def defaultConfig_def mergeConfig_def
        startBatchTimer_def initRateLimiter_def exampleEnv_def exampleDsn_def uuidF_def uuid0_def
        newIndexedDBStore_def captureLog_def samplingRate_def rateLimit_def minuteKey_def
        maskAndHook_def maskSensitiveFields_def buildEntry_def entry_id_def idProperty_def
        assign_id_def persistQueue_def saveLogsToLocalStorage_def addLog_def ensureDb_def
        openDb_def processQueue_def emit_def Let_def
        flushQueue_def selectBatch_def getAllLogs_def sendBatch_def handleSendSuccess_def
        handleSendFailure_def closeCircuit_def openCircuit_def deleteLogs_def
        CIRCUIT_BREAKER_THRESHOLD_def CIRCUIT_BREAKER_RESET_DELAY_def List.map_filter_simps
        http200_def http500_def fetchRejects_def)

subsection \<open>Persistence and batch order\<close>

text \<open>
  Claim C2 against the code. The durable store cannot be opened, so the write of the
  captured record fails. The record is accepted, yet afterwards it is neither in the
  in-memory queue nor in the store, and there is no fallback store to try: the
  \<^verbatim>\<open>catch\<close> branch prepends the (already emptied) queue to itself instead of the batch.
\<close>

theorem failed_write_loses_batch:
  "(case captureLog unopenable (exampleEnv uuidF) Info [''first''] (JObj []) of
      (Accepted logEntry, c') \<Rightarrow>
         logQueue c' = [] \<and> map_option objects (indexedDBStore c') = Some []
         \<and> localStorageStore c' = None
         \<and> events c' = [ConsoleError ''Failed to persist log to IndexedDB'']
    | _ \<Rightarrow> False)"
  by (simp add: unopenable_def newLogCollector_def noChange_def defaultConfig_def mergeConfig_def
        startBatchTimer_def initRateLimiter_def exampleEnv_def exampleDsn_def uuidF_def uuid0_def
        newIndexedDBStore_def captureLog_def samplingRate_def rateLimit_def minuteKey_def
        maskAndHook_def maskSensitiveFields_def buildEntry_def entry_id_def idProperty_def
        assign_id_def persistQueue_def saveLogsToLocalStorage_def addLog_def ensureDb_def
        openDb_def processQueue_def emit_def Let_def)

text \<open>
  Claim C4 against the code. \<^verbatim>\<open>info("first")\<close> is captured before
  \<^verbatim>\<open>info("second")\<close>, and the second record gets the smaller identifier. With
  \<^verbatim>\<open>batchSize = 1\<close> the flush sends the second record, not the oldest one; with
  \<^verbatim>\<open>batchSize = 2\<close> the batch holds the second record before the first.
\<close>

theorem flush_batch_in_key_order:
  "map (map (\<lambda>logEntry. valueAt logEntry [''message'']))
       (transmitted (events (flushQueue (twoCaptures 1) 0 False http200)))
     = [[Some (JStr ''second'')]]
   \<and> map (map (\<lambda>logEntry. valueAt logEntry [''message'']))
         (transmitted (events (flushQueue (twoCaptures 2) 0 False http200)))
       = [[Some (JStr ''second''), Some (JStr ''first'')]]"
  by (simp add: twoCaptures_def newLogCollector_def noChange_def defaultConfig_def mergeConfig_def
        startBatchTimer_def initRateLimiter_def exampleEnv_def exampleDsn_def uuidF_def uuid0_def
        newIndexedDBStore_def captureLog_def samplingRate_def rateLimit_def minuteKey_def
        maskAndHook_def maskSensitiveFields_def buildEntry_def entry_id_def idProperty_def
        assign_id_def persistQueue_def saveLogsToLocalStorage_def addLog_def ensureDb_def
        openDb_def processQueue_def emit_def Let_def
        flushQueue_def selectBatch_def getAllLogs_def sendBatch_def handleSendSuccess_def
        handleSendFailure_def closeCircuit_def openCircuit_def deleteLogs_def
        CIRCUIT_BREAKER_THRESHOLD_def CIRCUIT_BREAKER_RESET_DELAY_def List.map_filter_simps
        http200_def http500_def fetchRejects_def)

subsection \<open>Masking\<close>

lemma traverseAndMask_atom: "\<not> typeofObject v \<Longrightarrow> traverseAndMask F v = v"
  by (cases v) simp_all

lemma traverseAndMask_leaf: "members v = [] \<Longrightarrow> traverseAndMask F v = v"
  by (cases v) auto

lemma maskMembers_map:
  "maskMembers F kvs = map (\<lambda>kv. (fst kv, maskedValue F (fst kv) (snd kv))) kvs"
  by (induction kvs) (auto simp: maskedValue_def traverseAndMask_atom)

lemma maskElements_zip:
  "zip (map toStringNat [i..<i + length xs]) (maskElements F i xs)
     = map (\<lambda>kv. (fst kv, maskedValue F (fst kv) (snd kv))) (zip (map toStringNat [i..<i + length xs]) xs)"
proof (induction xs arbitrary: i)
  case Nil
  then show ?case by simp
next
  case (Cons v vs)
  have upt: "[i..<i + length (v # vs)] = i # [Suc i..<Suc i + length vs]"
    by (subst upt_rec) (simp del: upt_Suc)
  show ?case
    unfolding upt using Cons.IH [of "Suc i"]
    by (simp add: maskedValue_def traverseAndMask_atom del: toStringNat.simps upt_Suc)
qed

lemma length_maskElements: "length (maskElements F i xs) = length xs"
  by (induction xs arbitrary: i) simp_all

lemma members_traverseAndMask:
  "members (traverseAndMask F j) = map (\<lambda>kv. (fst kv, maskedValue F (fst kv) (snd kv))) (members j)"
proof (cases j)
  case (JArr xs)
  then show ?thesis using maskElements_zip [of 0 xs F] by (simp add: length_maskElements)
next
  case (JObj kvs)
  then show ?thesis by (simp add: maskMembers_map)
qed simp_all

lemma map_of_masked:
  "map_of (map (\<lambda>kv. (fst kv, maskedValue F (fst kv) (snd kv))) kvs) key
     = map_option (maskedValue F key) (map_of kvs key)"
  by (induction kvs) auto

lemma lookup_traverseAndMask:
  "map_of (members (traverseAndMask F j)) key = map_option (maskedValue F key) (map_of (members j) key)"
  by (simp only: members_traverseAndMask map_of_masked)

lemma valueAt_unmasked_path:
  assumes "list_all (\<lambda>key. key \<notin> set F) path"
  shows "valueAt (traverseAndMask F j) path = map_option (traverseAndMask F) (valueAt j path)"
  using assms
proof (induction path arbitrary: j)
  case Nil
  then show ?case by simp
next
  case (Cons key path)
  then show ?case
    by (cases "map_of (members j) key") (simp_all add: lookup_traverseAndMask maskedValue_def)
qed

lemma valueAt_string: "valueAt (JStr s) path = Some v \<Longrightarrow> path = [] \<and> v = JStr s"
  by (cases path) simp_all

lemma valueAt_masked_key:
  assumes "valueAt (traverseAndMask F j) (path @ [key]) = Some v" "key \<in> set F"
  shows "v = JStr ''********''"
  using assms
proof (induction path arbitrary: j)
  case Nil
  then show ?case
    by (cases "map_of (members j) key") (simp_all add: lookup_traverseAndMask maskedValue_def)
next
  case (Cons k path)
  show ?case
  proof (cases "map_of (members j) k")
    case None
    with Cons.prems show ?thesis by (simp add: lookup_traverseAndMask)
  next
    case (Some v0)
    show ?thesis
    proof (cases "k \<in> set F")
      case True
      with Some Cons.prems have "valueAt (JStr ''********'') (path @ [key]) = Some v"
        by (simp add: lookup_traverseAndMask maskedValue_def)
      from valueAt_string [OF this] show ?thesis by simp
    next
      case False
      with Some Cons.prems have "valueAt (traverseAndMask F v0) (path @ [key]) = Some v"
        by (simp add: lookup_traverseAndMask maskedValue_def)
      from Cons.IH [OF this Cons.prems(2)] show ?thesis .
    qed
  qed
qed

lemma valueAt_masked_present:
  assumes "valueAt j (path @ [key]) = Some v0" "key \<in> set F" "list_all (\<lambda>k. k \<notin> set F) path"
  shows "valueAt (traverseAndMask F j) (path @ [key]) = Some (JStr ''********'')"
  using assms
proof (induction path arbitrary: j)
  case Nil
  then show ?case
    by (cases "map_of (members j) key") (simp_all add: lookup_traverseAndMask maskedValue_def)
next
  case (Cons k path)
  then show ?case
    by (cases "map_of (members j) k") (simp_all add: lookup_traverseAndMask maskedValue_def)
qed

text \<open>
  With a \<^verbatim>\<open>beforeSend\<close> hook configured and \<^verbatim>\<open>maskFields\<close> not empty, the record
  handed to the hook is the masked copy: in it a path that ends in a key of
  \<^verbatim>\<open>maskFields\<close> has the value \<^verbatim>\<open>"********"\<close>, and a path none of whose keys is in
  \<^verbatim>\<open>maskFields\<close> has the original value with the same masking applied inside it.
\<close>

lemma masking_with_hook:
  assumes "beforeSend cfg = Some hook" and "maskFields cfg \<noteq> []"
  shows "maskAndHook cfg logEntry = hook (maskSensitiveFields logEntry (maskFields cfg))"
    and "valueAt (maskSensitiveFields logEntry (maskFields cfg)) (path @ [key]) = Some v
         \<Longrightarrow> key \<in> set (maskFields cfg) \<Longrightarrow> v = JStr ''********''"
    and "valueAt logEntry (path @ [key]) = Some v \<Longrightarrow> key \<in> set (maskFields cfg)
         \<Longrightarrow> list_all (\<lambda>k. k \<notin> set (maskFields cfg)) path
         \<Longrightarrow> valueAt (maskSensitiveFields logEntry (maskFields cfg)) (path @ [key])
               = Some (JStr ''********'')"
    and "list_all (\<lambda>k. k \<notin> set (maskFields cfg)) path
         \<Longrightarrow> valueAt (maskSensitiveFields logEntry (maskFields cfg)) path
               = map_option (traverseAndMask (maskFields cfg)) (valueAt logEntry path)"
proof -
  show "maskAndHook cfg logEntry = hook (maskSensitiveFields logEntry (maskFields cfg))"
    using assms by (simp add: maskAndHook_def)
  show "v = JStr ''********''"
    if "valueAt (maskSensitiveFields logEntry (maskFields cfg)) (path @ [key]) = Some v"
      and "key \<in> set (maskFields cfg)"
    using that valueAt_masked_key [of "maskFields cfg" logEntry path key v]
    by (simp add: maskSensitiveFields_def)
  show "valueAt (maskSensitiveFields logEntry (maskFields cfg)) (path @ [key])
          = Some (JStr ''********'')"
    if "valueAt logEntry (path @ [key]) = Some v" and "key \<in> set (maskFields cfg)"
      and "list_all (\<lambda>k. k \<notin> set (maskFields cfg)) path"
    using that valueAt_masked_present [of logEntry path key v "maskFields cfg"]
    by (simp add: maskSensitiveFields_def)
  show "valueAt (maskSensitiveFields logEntry (maskFields cfg)) path
          = map_option (traverseAndMask (maskFields cfg)) (valueAt logEntry path)"
    if "list_all (\<lambda>k. k \<notin> set (maskFields cfg)) path"
    using valueAt_unmasked_path [OF that] by (simp add: maskSensitiveFields_def)
qed

text \<open>
  Claim C6 against the code. Masking sits inside the block guarded by
  \<^verbatim>\<open>if (this.config.beforeSend)\<close>. A collector constructed with
  \<^verbatim>\<open>maskFields: ["password", "token"]\<close> and \<^verbatim>\<open>beforeSend: undefined\<close> accepts the
  record of \<^verbatim>\<open>info("x", {password: "p", nested: {token: "t", keep: "k"}})\<close> with both
  secrets intact. The same call on a collector with the default hook yields the record
  with both values replaced by \<^verbatim>\<open>"********"\<close> and \<^verbatim>\<open>keep\<close> unchanged.
\<close>

theorem masking_skipped_without_hook:
  "maskFields (config (newLogCollector maskingNoHook None None 0)) = [''password'', ''token'']
   \<and> (case fst (captureLog (newLogCollector maskingNoHook None None 0) (exampleEnv uuidF) Info [''x'']
                   secretContext) of
         Accepted logEntry \<Rightarrow>
           valueAt logEntry [''context'', ''password''] = Some (JStr ''p'')
           \<and> valueAt logEntry [''context'', ''nested'', ''token''] = Some (JStr ''t'')
       | _ \<Rightarrow> False)
   \<and> (case fst (captureLog (newLogCollector maskingConfig None None 0) (exampleEnv uuidF) Info [''x'']
                   secretContext) of
         Accepted logEntry \<Rightarrow>
           valueAt logEntry [''context'', ''password''] = Some (JStr ''********'')
           \<and> valueAt logEntry [''context'', ''nested'', ''token''] = Some (JStr ''********'')
           \<and> valueAt logEntry [''context'', ''nested'', ''keep''] = Some (JStr ''k'')
       | _ \<Rightarrow> False)"
  by (simp add: maskingNoHook_def maskingConfig_def secretContext_def newLogCollector_def noChange_def defaultConfig_def mergeConfig_def
        startBatchTimer_def initRateLimiter_def exampleEnv_def exampleDsn_def uuidF_def uuid0_def
        newIndexedDBStore_def captureLog_def samplingRate_def rateLimit_def minuteKey_def
        maskAndHook_def maskSensitiveFields_def buildEntry_def entry_id_def idProperty_def
        assign_id_def persistQueue_def saveLogsToLocalStorage_def addLog_def ensureDb_def
        openDb_def processQueue_def emit_def Let_def)

end
